theory Spec2Isabelle
  imports Complex_Main "HOL-Library.Word" "HOL-Library.AList"
begin

unbundle bit_operations_syntax

section \<open>Page-mapping FTL of SimpleSSD (ftl/page\_mapping.cc)\<close>

text \<open>
  A shallow embedding of \<^verbatim>\<open>PageMapping\<close>. Every member function becomes a function from
  the FTL state (and the tick it receives by reference) to either an error or the new state
  (and tick). A \<^verbatim>\<open>panic\<close>, an exception of \<^verbatim>\<open>vector::at\<close> and an operation with no
  defined behaviour in C++ are values of the type \<open>error\<close>.
\<close>

subsection \<open>Errors and the error monad\<close>

datatype error = Panic string | OutOfRange | Undefined string

definition bindE :: "error + 'a \<Rightarrow> ('a \<Rightarrow> error + 'b) \<Rightarrow> error + 'b" where
  "bindE m f = (case m of Inl e \<Rightarrow> Inl e | Inr x \<Rightarrow> f x)"

text \<open>A \<^verbatim>\<open>for\<close> loop over a sequence whose body may fail.\<close>

fun foldE :: "('a \<Rightarrow> 's \<Rightarrow> error + 's) \<Rightarrow> 'a list \<Rightarrow> 's \<Rightarrow> error + 's" where
  "foldE f [] s = Inr s"
| "foldE f (x # xs) s = bindE (f x s) (foldE f xs)"

subsection \<open>Bitset\<close>

text \<open>
  Modelled from the spec: \<^verbatim>\<open>util/bitset.hh\<close> is not under src/. An I/O map is the list
  of its bits; \<^verbatim>\<open>test\<close>, \<^verbatim>\<open>count\<close>, \<^verbatim>\<open>any\<close>, \<^verbatim>\<open>all\<close>, \<^verbatim>\<open>set\<close>,
  \<^verbatim>\<open>reset\<close>, \<^verbatim>\<open>flip\<close>, \<^verbatim>\<open>&\<close> and \<^verbatim>\<open>|=\<close> are the usual ones.
\<close>

type_synonym bitset = "bool list"

definition bit_test :: "bitset \<Rightarrow> nat \<Rightarrow> bool" where
  "bit_test bs i = (i < length bs \<and> bs ! i)"

definition bit_count :: "bitset \<Rightarrow> nat" where
  "bit_count bs = length (filter id bs)"

definition bit_any :: "bitset \<Rightarrow> bool" where
  "bit_any bs = (bit_count bs > 0)"

definition bit_all :: "bitset \<Rightarrow> bool" where
  "bit_all bs = (bit_count bs = length bs)"

definition bit_set_all :: "bitset \<Rightarrow> bitset" where
  "bit_set_all bs = map (\<lambda>_. True) bs"

definition bit_only :: "bitset \<Rightarrow> nat \<Rightarrow> bitset" where
  "bit_only bs i = (map (\<lambda>_. False) bs)[i := True]"

definition bit_flip :: "bitset \<Rightarrow> bitset" where
  "bit_flip bs = map Not bs"

definition bit_and :: "bitset \<Rightarrow> bitset \<Rightarrow> bitset" where
  "bit_and xs ys = map (\<lambda>(x, y). x \<and> y) (zip xs ys)"

definition bit_or :: "bitset \<Rightarrow> bitset \<Rightarrow> bitset" where
  "bit_or xs ys = map (\<lambda>(x, y). x \<or> y) (zip xs ys)"

subsection \<open>Block\<close>

type_synonym tick = "64 word"

text \<open>
  Modelled from the spec: the class \<^verbatim>\<open>Block\<close> (ftl/common/block) is not under src/.
  Its state is the spec's: index, erase count, one write pointer per I/O unit, the valid and
  erased bits and the LPN of every (page, I/O unit), and the timestamps.
\<close>

record block =
  blockIdx :: nat
  eraseCount :: nat
  nextWritePageIndex :: "nat list"
  validBits :: "bitset list"
  erasedBits :: "bitset list"
  lpnOf :: "nat list list"
  lastAccessed :: tick
  lastWritten :: tick
  maxErrorCount :: nat

definition newBlock :: "nat \<Rightarrow> nat \<Rightarrow> nat \<Rightarrow> nat \<Rightarrow> block" where
  "newBlock i pages units ec =
     \<lparr>blockIdx = i, eraseCount = ec, nextWritePageIndex = replicate units 0,
      validBits = replicate pages (replicate units False),
      erasedBits = replicate pages (replicate units True),
      lpnOf = replicate pages (replicate units 0),
      lastAccessed = 0, lastWritten = 0, maxErrorCount = 0\<rparr>"

text \<open>Modelled from the spec: \<open>valid_page_count = \<Sum> valid_bits\<close>.\<close>

definition getValidPageCount :: "block \<Rightarrow> nat" where
  "getValidPageCount b = sum_list (map bit_count (validBits b))"

text \<open>
  Modelled from the spec: \<^verbatim>\<open>getNextWritePageIndex()\<close> without argument is compared with
  \<^verbatim>\<open>pagesInBlock\<close> to ask whether the block is full, which the spec defines as every
  I/O unit's pointer being at \<^verbatim>\<open>pages_in_block\<close>.
\<close>

definition blockFull :: "nat \<Rightarrow> block \<Rightarrow> bool" where
  "blockFull pages b = list_all (\<lambda>p. p = pages) (nextWritePageIndex b)"

text \<open>
  Modelled from the spec: \<^verbatim>\<open>getNextWritePageIndex(idx)\<close> is the spec's
  \<open>allocate_next_write(io_unit)\<close>: it returns the pointer of the unit and advances it.
\<close>

definition block_getNextWritePageIndex :: "block \<Rightarrow> nat \<Rightarrow> error + (nat \<times> block)" where
  "block_getNextWritePageIndex b idx =
     (if idx < length (nextWritePageIndex b)
      then Inr (nextWritePageIndex b ! idx,
                b\<lparr>nextWritePageIndex := (nextWritePageIndex b)[idx := Suc (nextWritePageIndex b ! idx)]\<rparr>)
      else Inl OutOfRange)"

definition in_bits :: "'a list list \<Rightarrow> nat \<Rightarrow> nat \<Rightarrow> bool" where
  "in_bits m page idx = (page < length m \<and> idx < length (m ! page))"

definition put_bits :: "'a list list \<Rightarrow> nat \<Rightarrow> nat \<Rightarrow> 'a \<Rightarrow> 'a list list" where
  "put_bits m page idx v = m[page := (m ! page)[idx := v]]"

text \<open>
  Modelled from the spec: \<open>write(page, lpn, io_unit, tick)\<close> sets the valid bit, clears
  the erased bit and stamps the access time; a page is written once between erases, so a
  write to a slot that is not erased is fatal.
\<close>

definition block_write :: "block \<Rightarrow> nat \<Rightarrow> nat \<Rightarrow> nat \<Rightarrow> tick \<Rightarrow> error + block" where
  "block_write b page l idx t =
     (if in_bits (validBits b) page idx \<and> in_bits (erasedBits b) page idx \<and> in_bits (lpnOf b) page idx
      then (if erasedBits b ! page ! idx
            then Inr (b\<lparr>validBits := put_bits (validBits b) page idx True,
                        erasedBits := put_bits (erasedBits b) page idx False,
                        lpnOf := put_bits (lpnOf b) page idx l,
                        lastAccessed := t\<rparr>)
            else Inl (Panic ''Write to non erased page''))
      else Inl OutOfRange)"

text \<open>Modelled from the spec: \<open>invalidate(page, io_unit)\<close> clears the valid bit (idempotent).\<close>

definition block_invalidate :: "block \<Rightarrow> nat \<Rightarrow> nat \<Rightarrow> error + block" where
  "block_invalidate b page idx =
     (if in_bits (validBits b) page idx
      then Inr (b\<lparr>validBits := put_bits (validBits b) page idx False\<rparr>)
      else Inl OutOfRange)"

text \<open>Modelled from the spec: \<open>read(page, io_unit, tick)\<close> updates the access time.\<close>

definition block_read :: "block \<Rightarrow> nat \<Rightarrow> nat \<Rightarrow> tick \<Rightarrow> error + block" where
  "block_read b page idx t =
     (if in_bits (validBits b) page idx then Inr (b\<lparr>lastAccessed := t\<rparr>) else Inl OutOfRange)"

text \<open>
  Modelled from the spec: \<^verbatim>\<open>getPageInfo(page, lpns, bit)\<close> hands out the LPNs and the
  valid bits of the page and answers whether the page has a valid I/O unit.
\<close>

definition block_getPageInfo :: "block \<Rightarrow> nat \<Rightarrow> error + (nat list \<times> bitset \<times> bool)" where
  "block_getPageInfo b page =
     (if page < length (validBits b) \<and> page < length (lpnOf b)
      then Inr (lpnOf b ! page, validBits b ! page, bit_any (validBits b ! page))
      else Inl OutOfRange)"

text \<open>
  Modelled from the spec: \<open>erase()\<close> clears the valid bits, sets the erased bits, resets
  every write pointer and increments the erase count. The count is a \<^verbatim>\<open>uint32_t\<close> (the
  constructor and \<^verbatim>\<open>eraseInternal\<close> hold it in one): the increment wraps at \<open>2 ^ 32\<close>.
\<close>

definition block_erase :: "block \<Rightarrow> block" where
  "block_erase b =
     b\<lparr>eraseCount := Suc (eraseCount b) mod 2 ^ 32,
       nextWritePageIndex := map (\<lambda>_. 0) (nextWritePageIndex b),
       validBits := map (map (\<lambda>_. False)) (validBits b),
       erasedBits := map (map (\<lambda>_. True)) (erasedBits b)\<rparr>"

subsection \<open>The collaborators and the state of the FTL\<close>

record pal_request =
  blockIndex :: nat
  pageIndex :: nat
  palFlag :: bitset

record request =
  lpn :: nat
  ioFlag :: bitset

text \<open>
  The PAL and the DRAM model are collaborators outside the file. A call hands them a tick
  by reference and they leave the tick at which the call finishes. The calls made so far are
  kept in \<open>ioLog\<close> (call, begin, finish); what a collaborator answers may depend on them.
  A DRAM call names the mapping entry (its LPN) and the number of bytes.
\<close>

datatype io_call =
  PalRead pal_request | PalWrite pal_request | PalErase pal_request
| DramRead nat nat | DramWrite nat nat

type_synonym io_event = "io_call \<times> tick \<times> tick"

datatype cpu_fn =
  READ | WRITE | TRIM | FORMAT | READ_INTERNAL | WRITE_INTERNAL | TRIM_INTERNAL
| ERASE_INTERNAL | SELECT_VICTIM_BLOCK | DO_GARBAGE_COLLECTION

text \<open>
  Modelled from the spec: the class \<^verbatim>\<open>bloom_filter\<close> is not under src/. The bit table is
  abstracted to the keys handed to \<^verbatim>\<open>insert\<close>, in order (\<^verbatim>\<open>element_count()\<close> is their
  number); \<^verbatim>\<open>contains\<close> answers true for each of them and, for another key, whatever the
  hash functions of the filter say (a false positive, a parameter of the environment).
\<close>

record bloom_filter =
  inserted :: "64 word list"
  actual_insert :: nat
  true_positive :: nat
  false_positive :: nat
  true_negative :: nat

record ftl =
  freeBlocks :: "block list"
  nFreeBlocks :: nat
  blocks :: "nat \<rightharpoonup> block"
  table :: "(nat \<times> (nat \<times> nat) list) list"
  lastFreeBlock :: "nat list"
  lastFreeBlockIndex :: nat
  lastFreeBlockIOMap :: bitset
  bReclaimMore :: bool
  bloomFilters :: "bloom_filter list"
  refresh_table :: "64 word \<rightharpoonup> nat"
  gcCount :: "64 word"
  reclaimedBlocks :: "64 word"
  validSuperPageCopies :: "64 word"
  validPageCopies :: "64 word"
  refreshSuperPageCopies :: "64 word"
  refreshPageCopies :: "64 word"
  refreshCallCount :: "64 word"
  layerCheckCount :: "64 word"
  ioLog :: "io_event list"
  warnLog :: "string list"

text \<open>
  The configuration (\<^verbatim>\<open>param\<close>, \<^verbatim>\<open>conf\<close>) and the collaborators. The comparison
  \<^verbatim>\<open>freeBlockRatio() < gcThreshold\<close> is one of floats: it is the predicate
  \<open>belowGcThreshold\<close> on \<^verbatim>\<open>nFreeBlocks\<close>. \<^verbatim>\<open>selectVictimBlock\<close> computes float
  weights, walks a hash map, draws random numbers and sorts unstably: the list it chooses is
  \<open>selectVictims\<close>, any function of the state and the tick. \<open>getRBER\<close> is the error
  model's prediction, read as the real number the float denotes.
\<close>

record env =
  totalPhysicalBlocks :: nat
  pagesInBlock :: nat
  ioUnitInPage :: nat
  pageCountToMaxPerf :: nat
  bRandomTweak :: bool
  initEraseCount :: nat
  badBlockThreshold :: nat
  refresh_filter_num :: nat
  refresh_period :: "64 word"
  belowGcThreshold :: "nat \<Rightarrow> bool"
  applyLatency :: "cpu_fn \<Rightarrow> tick"
  ioFinish :: "io_event list \<Rightarrow> io_call \<Rightarrow> tick \<Rightarrow> tick"
  getRBER :: "64 word \<Rightarrow> nat \<Rightarrow> nat \<Rightarrow> real"
  bloomFalsePositive :: "nat \<Rightarrow> 64 word list \<Rightarrow> 64 word \<Rightarrow> bool"
  selectVictims :: "ftl \<Rightarrow> tick \<Rightarrow> error + nat list"
  getTick :: tick
  uninitialisedTick :: tick

definition bitsetSize :: "env \<Rightarrow> nat" where
  "bitsetSize e = (if bRandomTweak e then ioUnitInPage e else 1)"

text \<open>One call of a collaborator: the tick becomes the finish tick, the call is logged.\<close>

definition doIO :: "env \<Rightarrow> io_call \<Rightarrow> ftl \<Rightarrow> tick \<Rightarrow> ftl \<times> tick" where
  "doIO e c s t =
     (let fin = ioFinish e (ioLog s) c t in (s\<lparr>ioLog := ioLog s @ [(c, t, fin)]\<rparr>, fin))"

subsection \<open>Free-block pool\<close>

text \<open>The search of \<^verbatim>\<open>getFreeBlock\<close>: the first free block of the stripe \<open>idx\<close>.\<close>

fun findStripe :: "nat \<Rightarrow> nat \<Rightarrow> block list \<Rightarrow> nat option" where
  "findStripe n idx [] = None"
| "findStripe n idx (b # bs) =
     (if blockIdx b mod n = idx then Some 0 else map_option Suc (findStripe n idx bs))"

definition getFreeBlock :: "env \<Rightarrow> ftl \<Rightarrow> nat \<Rightarrow> error + (ftl \<times> nat)" where
  "getFreeBlock e s idx =
     (if idx \<ge> pageCountToMaxPerf e then Inl (Panic ''Index out of range'')
      else if nFreeBlocks s > 0 then
        (let pos = (case findStripe (pageCountToMaxPerf e) idx (freeBlocks s) of
                      Some p \<Rightarrow> p | None \<Rightarrow> 0)
         in if pos < length (freeBlocks s) then
              (let b = freeBlocks s ! pos in
               if blocks s (blockIdx b) \<noteq> None then Inl (Panic ''Corrupted'')
               else Inr (s\<lparr>blocks := (blocks s)(blockIdx b \<mapsto> b\<lparr>lastWritten := getTick e\<rparr>),
                           freeBlocks := take pos (freeBlocks s) @ drop (Suc pos) (freeBlocks s),
                           nFreeBlocks := nFreeBlocks s - 1\<rparr>, blockIdx b))
            else Inl (Undefined ''begin() of an empty free list''))
      else Inl (Panic ''No free block left''))"

text \<open>
  The reverse search of \<^verbatim>\<open>eraseInternal\<close>, whose \<^verbatim>\<open>uint32_t erasedCount\<close> is \<open>c\<close>. The iterator is the position \<open>i\<close>, the end being
  \<open>length xs\<close>. The loop decrements first: at position 0 (the list is empty) the decrement
  of \<^verbatim>\<open>begin()\<close> has no defined behaviour, which is \<open>None\<close>.
\<close>

fun reverseSearch :: "block list \<Rightarrow> nat \<Rightarrow> nat \<Rightarrow> nat option" where
  "reverseSearch xs c 0 = None"
| "reverseSearch xs c (Suc i) =
     (if eraseCount (xs ! i) \<le> c then Some (Suc i)
      else if i = 0 then Some 0
      else reverseSearch xs c i)"

definition eraseInternal :: "env \<Rightarrow> ftl \<Rightarrow> pal_request \<Rightarrow> tick \<Rightarrow> error + (ftl \<times> tick)" where
  "eraseInternal e s req t =
     (case blocks s (blockIndex req) of
        None \<Rightarrow> Inl (Panic ''No such block'')
      | Some b \<Rightarrow>
          if getValidPageCount b \<noteq> 0 then Inl (Panic ''There are valid pages in victim block'')
          else
            (let b' = block_erase b;
                 (s1, t1) = doIO e (PalErase req) s t;
                 erasedCount = eraseCount b' mod 2 ^ 32
             in if erasedCount < badBlockThreshold e then
                  (case reverseSearch (freeBlocks s1) erasedCount (length (freeBlocks s1)) of
                     None \<Rightarrow> Inl (Undefined ''decrement of begin() of the empty free list'')
                   | Some p \<Rightarrow>
                       Inr (s1\<lparr>freeBlocks := take p (freeBlocks s1) @ [b'] @ drop p (freeBlocks s1),
                               nFreeBlocks := Suc (nFreeBlocks s1),
                               blocks := (blocks s1)(blockIndex req := None)\<rparr>,
                            t1 + applyLatency e ERASE_INTERNAL))
                else
                  Inr (s1\<lparr>blocks := (blocks s1)(blockIndex req := None)\<rparr>,
                       t1 + applyLatency e ERASE_INTERNAL)))"

text \<open>
  \<^verbatim>\<open>getLastFreeBlock\<close>: the current write target of the stripe, replaced by a fresh
  free block when it is full.
\<close>

definition getLastFreeBlock :: "env \<Rightarrow> ftl \<Rightarrow> bitset \<Rightarrow> error + (ftl \<times> nat)" where
  "getLastFreeBlock e s iomap =
     (let s1 = (if \<not> bRandomTweak e \<or> bit_any (bit_and (lastFreeBlockIOMap s) iomap)
                then s\<lparr>lastFreeBlockIndex :=
                          (if Suc (lastFreeBlockIndex s) = pageCountToMaxPerf e then 0
                           else Suc (lastFreeBlockIndex s)),
                        lastFreeBlockIOMap := iomap\<rparr>
                else s\<lparr>lastFreeBlockIOMap := bit_or (lastFreeBlockIOMap s) iomap\<rparr>);
          i = lastFreeBlockIndex s1
      in if i \<ge> length (lastFreeBlock s1) then Inl OutOfRange
         else (case blocks s1 (lastFreeBlock s1 ! i) of
                 None \<Rightarrow> Inl (Panic ''Corrupted'')
               | Some b \<Rightarrow>
                   if blockFull (pagesInBlock e) b
                   then bindE (getFreeBlock e s1 i)
                          (\<lambda>(s2, n). Inr (s2\<lparr>lastFreeBlock := (lastFreeBlock s2)[i := n],
                                              bReclaimMore := True\<rparr>, n))
                   else Inr (s1, lastFreeBlock s1 ! i)))"

subsection \<open>Refresh registration\<close>

text \<open>The key of a (block, layer): \<^verbatim>\<open>((uint64_t)block_id << 32) + layer_id\<close>.\<close>

definition refreshKey :: "nat \<Rightarrow> nat \<Rightarrow> 64 word" where
  "refreshKey block_id layer_id = push_bit 32 (of_nat block_id) + of_nat layer_id"

definition bloom_insert :: "bloom_filter \<Rightarrow> 64 word \<Rightarrow> bloom_filter" where
  "bloom_insert f item = f\<lparr>inserted := inserted f @ [item]\<rparr>"

definition bloom_contains :: "env \<Rightarrow> nat \<Rightarrow> bloom_filter \<Rightarrow> 64 word \<Rightarrow> bool" where
  "bloom_contains e level f item =
     (item \<in> set (inserted f) \<or> bloomFalsePositive e level (inserted f) item)"

definition emptyBloom :: bloom_filter where
  "emptyBloom = \<lparr>inserted = [], actual_insert = 0, true_positive = 0, false_positive = 0,
                 true_negative = 0\<rparr>"

definition setRefreshPeriod :: "env \<Rightarrow> ftl \<Rightarrow> nat \<Rightarrow> nat \<Rightarrow> nat \<Rightarrow> error + ftl" where
  "setRefreshPeriod e s block_id layer_id rtc =
     (if rtc < length (bloomFilters s) then
        (let item = refreshKey block_id layer_id;
             f = bloomFilters s ! rtc;
             counted = f\<lparr>actual_insert := Suc (actual_insert f)\<rparr>;
             (rt, f1) = (case refresh_table s item of
                           None \<Rightarrow> ((refresh_table s)(item \<mapsto> rtc), counted)
                         | Some old \<Rightarrow>
                             if old > rtc then ((refresh_table s)(item \<mapsto> rtc), counted)
                             else (refresh_table s, f))
         in Inr (s\<lparr>refresh_table := rt,
                     bloomFilters := (bloomFilters s)[rtc := bloom_insert f1 item]\<rparr>))
      else Inl (Undefined ''bloomFilters[rtc] beyond the vector''))"

text \<open>
  The ECC capability: the literal \<^verbatim>\<open>0.01\<close> is a double, the nearest one to 1/100.
\<close>

definition eccCapability :: real where
  "eccCapability = 5764607523034235 / 2 ^ 59"

text \<open>
  The retention time handed to the error model:
  \<^verbatim>\<open>refresh_period * 1000000000ULL * j\<close>, in 64 bits.
\<close>

definition retentionTime :: "env \<Rightarrow> 32 word \<Rightarrow> 64 word" where
  "retentionTime e j = refresh_period e * 1000000000 * ucast j"

text \<open>
  The loop of \<^verbatim>\<open>writeInternal\<close> that registers a written (block, layer):
  \<^verbatim>\<open>for (i = bloomFilters.size(), j = 1 << (size - 1); i > 0; i--, j = j >> 1)\<close>.
  The third argument from the right is \<open>i\<close>, the next one \<open>j\<close>.
\<close>

fun registerLoop :: "env \<Rightarrow> nat \<Rightarrow> nat \<Rightarrow> nat \<Rightarrow> nat \<Rightarrow> 32 word \<Rightarrow> ftl \<Rightarrow> error + ftl" where
  "registerLoop e blk layer ec 0 j s = Inr s"
| "registerLoop e blk layer ec (Suc k) j s =
     (if Suc k = length (bloomFilters s)
      then bindE (setRefreshPeriod e s blk layer k) (registerLoop e blk layer ec k (drop_bit 1 j))
      else if getRBER e (retentionTime e j) ec layer > eccCapability
      then bindE (setRefreshPeriod e s blk layer k) (registerLoop e blk layer ec k (drop_bit 1 j))
      else registerLoop e blk layer ec k (drop_bit 1 j) s)"

text \<open>
  The initial \<open>j\<close> is \<^verbatim>\<open>1 << (bloomFilters.size() - 1)\<close>, a shift of the \<^verbatim>\<open>int\<close> 1: it
  is defined for 1 to 32 filters only.
\<close>

definition registerRefresh :: "env \<Rightarrow> nat \<Rightarrow> nat \<Rightarrow> nat \<Rightarrow> ftl \<Rightarrow> error + ftl" where
  "registerRefresh e blk layer ec s =
     (let n = length (bloomFilters s) in
      if n = 0 \<or> n > 32 then Inl (Undefined ''shift count of 1 << (size - 1)'')
      else registerLoop e blk layer ec n (push_bit (n - 1) 1) s)"

subsection \<open>Garbage collection\<close>

text \<open>
  \<^verbatim>\<open>selectVictimBlock\<close>: the list is the environment's choice; the function clears
  \<^verbatim>\<open>bReclaimMore\<close> and charges its latency.
\<close>

definition selectVictimBlock :: "env \<Rightarrow> ftl \<Rightarrow> tick \<Rightarrow> error + (ftl \<times> nat list \<times> tick)" where
  "selectVictimBlock e s t =
     bindE (selectVictims e s t)
       (\<lambda>list. Inr (s\<lparr>bReclaimMore := False\<rparr>, list, t + applyLatency e SELECT_VICTIM_BLOCK))"

text \<open>
  The body of the loop over the I/O units of a valid page: invalidate the source, point
  the mapping at the next page of the write target, write there. The loop state is the FTL,
  the tick (the DRAM reads advance it) and the write requests. The tick handed to
  \<^verbatim>\<open>Block::write\<close> is \<^verbatim>\<open>beginAt\<close>, which is not initialised at this point.
\<close>

definition gcCopyUnit ::
  "env \<Rightarrow> nat \<Rightarrow> nat \<Rightarrow> nat \<Rightarrow> nat list \<Rightarrow> bitset \<Rightarrow> nat
     \<Rightarrow> ftl \<times> tick \<times> pal_request list \<Rightarrow> error + (ftl \<times> tick \<times> pal_request list)" where
  "gcCopyUnit e src page newBlk lpns bits idx = (\<lambda>(s, t, wr).
     if bit_test bits idx then
       (case blocks s src of
          None \<Rightarrow> Inl (Undefined ''the victim is not in use'')
        | Some b \<Rightarrow>
            bindE (block_invalidate b page idx) (\<lambda>b'.
            let s1 = s\<lparr>blocks := (blocks s)(src \<mapsto> b')\<rparr> in
            if idx \<ge> length lpns then Inl OutOfRange
            else
              (case map_of (table s1) (lpns ! idx) of
                 None \<Rightarrow> Inl (Panic ''Invalid mapping table entry'')
               | Some ml \<Rightarrow>
                   (let (s2, t') = doIO e (DramRead (lpns ! idx) (8 * ioUnitInPage e)) s1 t in
                    if idx \<ge> length ml then Inl OutOfRange
                    else
                      (case blocks s2 newBlk of
                         None \<Rightarrow> Inl (Undefined ''the write target is not in use'')
                       | Some fb \<Rightarrow>
                           bindE (block_getNextWritePageIndex fb idx) (\<lambda>(newPage, fb1).
                           bindE (block_write fb1 newPage (lpns ! idx) idx (uninitialisedTick e)) (\<lambda>fb2.
                           Inr (s2\<lparr>table := AList.map_entry (lpns ! idx)
                                                (\<lambda>m. m[idx := (newBlk, newPage)]) (table s2),
                                     blocks := (blocks s2)(newBlk \<mapsto> fb2),
                                     validPageCopies := validPageCopies s2 + 1\<rparr>,
                                t',
                                wr @ [\<lparr>blockIndex = newBlk, pageIndex = newPage,
                                        palFlag = (if bRandomTweak e then bit_only bits idx
                                                   else bit_set_all bits)\<rparr>]))))))))
     else Inr (s, t, wr))"

text \<open>The body of the loop over the pages of a victim. The state also has the read requests.\<close>

definition gcCopyPage ::
  "env \<Rightarrow> nat \<Rightarrow> nat \<Rightarrow> ftl \<times> tick \<times> pal_request list \<times> pal_request list
     \<Rightarrow> error + (ftl \<times> tick \<times> pal_request list \<times> pal_request list)" where
  "gcCopyPage e src page = (\<lambda>(s, t, rd, wr).
     case blocks s src of
       None \<Rightarrow> Inl (Undefined ''the victim is not in use'')
     | Some b \<Rightarrow>
         bindE (block_getPageInfo b page) (\<lambda>(lpns, bits0, valid).
         if valid then
           (let bits = (if bRandomTweak e then bits0 else bit_set_all bits0) in
            bindE (getLastFreeBlock e s bits) (\<lambda>(s1, newBlk).
            bindE (foldE (gcCopyUnit e src page newBlk lpns bits) [0..<bitsetSize e] (s1, t, wr))
              (\<lambda>(s2, t2, wr2).
                 Inr (s2\<lparr>validSuperPageCopies := validSuperPageCopies s2 + 1\<rparr>, t2,
                      rd @ [\<lparr>blockIndex = src, pageIndex = page, palFlag = bits\<rparr>], wr2))))
         else Inr (s, t, rd, wr)))"

text \<open>The body of the loop over the blocks to reclaim; the erase requests come last.\<close>

definition gcCollect ::
  "env \<Rightarrow> nat
     \<Rightarrow> ftl \<times> tick \<times> pal_request list \<times> pal_request list \<times> pal_request list
     \<Rightarrow> error + (ftl \<times> tick \<times> pal_request list \<times> pal_request list \<times> pal_request list)" where
  "gcCollect e victim = (\<lambda>(s, t, rd, wr, er).
     case blocks s victim of
       None \<Rightarrow> Inl (Panic ''Invalid block'')
     | Some _ \<Rightarrow>
         bindE (foldE (gcCopyPage e victim) [0..<pagesInBlock e] (s, t, rd, wr))
           (\<lambda>(s1, t1, rd1, wr1).
              Inr (s1, t1, rd1, wr1,
                   er @ [\<lparr>blockIndex = victim, pageIndex = 0,
                           palFlag = replicate (ioUnitInPage e) True\<rparr>])))"

text \<open>
  The loops that do the I/O. Every request of the list begins at the same tick
  \<open>beginAt\<close>; the second component of the state is the running maximum of the finish ticks.
\<close>

fun issueAll ::
  "env \<Rightarrow> (pal_request \<Rightarrow> io_call) \<Rightarrow> tick \<Rightarrow> pal_request list \<Rightarrow> ftl \<times> tick \<Rightarrow> ftl \<times> tick" where
  "issueAll e k beginAt [] (s, fin) = (s, fin)"
| "issueAll e k beginAt (r # rs) (s, fin) =
     (let (s1, t1) = doIO e (k r) s beginAt in issueAll e k beginAt rs (s1, max fin t1))"

definition gcErase :: "env \<Rightarrow> tick \<Rightarrow> pal_request \<Rightarrow> ftl \<times> tick \<Rightarrow> error + (ftl \<times> tick)" where
  "gcErase e beginAt r = (\<lambda>(s, fin).
     bindE (eraseInternal e s r beginAt) (\<lambda>(s1, t1). Inr (s1, max fin t1)))"

definition doGarbageCollection :: "env \<Rightarrow> ftl \<Rightarrow> nat list \<Rightarrow> tick \<Rightarrow> error + (ftl \<times> tick)" where
  "doGarbageCollection e s blocksToReclaim t =
     (if blocksToReclaim = [] then Inr (s, t)
      else
        bindE (foldE (gcCollect e) blocksToReclaim (s, t, [], [], []))
          (\<lambda>(s1, t1, rd, wr, er).
             let (s2, readFinishedAt) = issueAll e PalRead t1 rd (s1, t);
                 (s3, writeFinishedAt) = issueAll e PalWrite readFinishedAt wr (s2, t)
             in bindE (foldE (gcErase e readFinishedAt) er (s3, t))
                  (\<lambda>(s4, eraseFinishedAt).
                     Inr (s4, max writeFinishedAt eraseFinishedAt
                              + applyLatency e DO_GARBAGE_COLLECTION))))"

text \<open>
  The on-demand collection of \<^verbatim>\<open>writeInternal\<close> and \<^verbatim>\<open>refreshPage\<close>: it works on a
  copy of the tick, so the caller's tick stays.
\<close>

definition gcOnDemand :: "env \<Rightarrow> ftl \<Rightarrow> tick \<Rightarrow> error + ftl" where
  "gcOnDemand e s t =
     bindE (selectVictimBlock e s t) (\<lambda>(s1, list, beginAt).
     bindE (doGarbageCollection e s1 list beginAt) (\<lambda>(s2, _).
     Inr (s2\<lparr>gcCount := gcCount s2 + 1,
              reclaimedBlocks := reclaimedBlocks s2 + of_nat (length list)\<rparr>)))"

subsection \<open>Read, write and trim\<close>

definition mappingBytes :: "env \<Rightarrow> request \<Rightarrow> nat" where
  "mappingBytes e req = (if bRandomTweak e then 8 * bit_count (ioFlag req) else 8)"

definition readUnit ::
  "env \<Rightarrow> request \<Rightarrow> (nat \<times> nat) list \<Rightarrow> tick \<Rightarrow> nat \<Rightarrow> ftl \<times> tick \<Rightarrow> error + (ftl \<times> tick)" where
  "readUnit e req ml t idx = (\<lambda>(s, fin).
     if bit_test (ioFlag req) idx \<or> \<not> bRandomTweak e then
       (if idx \<ge> length ml then Inl OutOfRange
        else if fst (ml ! idx) < totalPhysicalBlocks e \<and> snd (ml ! idx) < pagesInBlock e then
          (case blocks s (fst (ml ! idx)) of
             None \<Rightarrow> Inl (Panic ''Block is not in use'')
           | Some b \<Rightarrow>
               bindE (block_read b (snd (ml ! idx)) idx t) (\<lambda>b'.
               let (s1, t1) =
                     doIO e (PalRead \<lparr>blockIndex = fst (ml ! idx), pageIndex = snd (ml ! idx),
                                       palFlag = (if bRandomTweak e then bit_only (ioFlag req) idx
                                                  else bit_set_all (ioFlag req))\<rparr>)
                       (s\<lparr>blocks := (blocks s)(fst (ml ! idx) \<mapsto> b')\<rparr>) t
               in Inr (s1, max fin t1)))
        else Inr (s, fin))
     else Inr (s, fin))"

definition readInternal :: "env \<Rightarrow> ftl \<Rightarrow> request \<Rightarrow> tick \<Rightarrow> error + (ftl \<times> tick)" where
  "readInternal e s req t =
     (case map_of (table s) (lpn req) of
        None \<Rightarrow> Inr (s, t)
      | Some ml \<Rightarrow>
          (let (s1, t1) = doIO e (DramRead (lpn req) (mappingBytes e req)) s t in
           bindE (foldE (readUnit e req ml t1) [0..<bitsetSize e] (s1, t))
             (\<lambda>(s2, finishedAt). Inr (s2, finishedAt + applyLatency e READ_INTERNAL))))"

text \<open>
  The first loop of \<^verbatim>\<open>writeInternal\<close>: invalidate the page an I/O unit is mapped to. The
  iterator of \<^verbatim>\<open>blocks.find\<close> is used unchecked.
\<close>

definition invalidateOld ::
  "env \<Rightarrow> request \<Rightarrow> (nat \<times> nat) list \<Rightarrow> nat \<Rightarrow> ftl \<Rightarrow> error + ftl" where
  "invalidateOld e req ml idx s =
     (if bit_test (ioFlag req) idx \<or> \<not> bRandomTweak e then
        (if idx \<ge> length ml then Inl OutOfRange
         else if fst (ml ! idx) < totalPhysicalBlocks e \<and> snd (ml ! idx) < pagesInBlock e then
           (case blocks s (fst (ml ! idx)) of
              None \<Rightarrow> Inl (Undefined ''invalidate through the end iterator'')
            | Some b \<Rightarrow>
                bindE (block_invalidate b (snd (ml ! idx)) idx)
                  (\<lambda>b'. Inr (s\<lparr>blocks := (blocks s)(fst (ml ! idx) \<mapsto> b')\<rparr>)))
         else Inr s)
      else Inr s)"

text \<open>
  The second loop of \<^verbatim>\<open>writeInternal\<close>, for one I/O unit: take the next page of the
  write target, write it, read the old data if needed, update the mapping, issue the PAL
  write and register the (block, layer) for refresh. \<open>t\<close> is the tick after the DRAM calls.
  \<open>writeUnitIO\<close> is the middle of the body: the read of the old page \<open>old\<close>, the new
  mapping and the PAL write.
\<close>

definition writeUnitIO ::
  "env \<Rightarrow> request \<Rightarrow> nat \<Rightarrow> nat \<times> nat \<Rightarrow> nat \<Rightarrow> nat \<Rightarrow> bool \<Rightarrow> bool \<Rightarrow> ftl \<Rightarrow> tick
     \<Rightarrow> ftl \<times> tick" where
  "writeUnitIO e req blk old page idx readBeforeWrite sendToPAL s t =
     (let (s2, t2) =
            (if readBeforeWrite \<and> sendToPAL
             then doIO e (PalRead \<lparr>blockIndex = fst old, pageIndex = snd old,
                                   palFlag = bit_flip (ioFlag req)\<rparr>) s t
             else (s, t));
          s3 = s2\<lparr>table := AList.map_entry (lpn req) (\<lambda>m. m[idx := (blk, page)]) (table s2)\<rparr>
      in if sendToPAL
         then doIO e (PalWrite \<lparr>blockIndex = blk, pageIndex = page,
                                palFlag = (if bRandomTweak e then bit_only (ioFlag req) idx
                                           else bit_set_all (ioFlag req))\<rparr>) s3 t2
         else (s3, t2))"

definition writeUnit ::
  "env \<Rightarrow> request \<Rightarrow> nat \<Rightarrow> tick \<Rightarrow> bool \<Rightarrow> bool \<Rightarrow> nat \<Rightarrow> ftl \<times> tick \<Rightarrow> error + (ftl \<times> tick)" where
  "writeUnit e req blk t readBeforeWrite sendToPAL idx = (\<lambda>(s, fin).
     if bit_test (ioFlag req) idx \<or> \<not> bRandomTweak e then
       (case blocks s blk of
          None \<Rightarrow> Inl (Undefined ''the write target is not in use'')
        | Some b \<Rightarrow>
            bindE (block_getNextWritePageIndex b idx) (\<lambda>(page, b1).
            case map_of (table s) (lpn req) of
              None \<Rightarrow> Inl (Undefined ''the mapping entry is gone'')
            | Some ml \<Rightarrow>
                if idx \<ge> length ml then Inl OutOfRange
                else
                  bindE (block_write b1 page (lpn req) idx t) (\<lambda>b2.
                  let (s4, t4) = writeUnitIO e req blk (ml ! idx) page idx readBeforeWrite sendToPAL
                                   (s\<lparr>blocks := (blocks s)(blk \<mapsto> b2)\<rparr>) t
                  in if sendToPAL
                     then bindE (registerRefresh e blk (page mod 64) (eraseCount b2) s4)
                            (\<lambda>s5. Inr (s5, max fin t4))
                     else Inr (s4, max fin t4))))
     else Inr (s, fin))"

definition writeInternal :: "env \<Rightarrow> ftl \<Rightarrow> request \<Rightarrow> tick \<Rightarrow> bool \<Rightarrow> error + (ftl \<times> tick)" where
  "writeInternal e s req t sendToPAL =
     bindE (case map_of (table s) (lpn req) of
              Some ml \<Rightarrow> foldE (invalidateOld e req ml) [0..<bitsetSize e] s
            | None \<Rightarrow>
                Inr (s\<lparr>table := table s @
                         [(lpn req, replicate (bitsetSize e) (totalPhysicalBlocks e, pagesInBlock e))]\<rparr>))
       (\<lambda>s1.
     bindE (getLastFreeBlock e s1 (ioFlag req)) (\<lambda>(s2, blk).
     case blocks s2 blk of
       None \<Rightarrow> Inl (Panic ''No such block'')
     | Some _ \<Rightarrow>
         (let (s3, t3) =
                (if sendToPAL
                 then (let (sa, ta) = doIO e (DramRead (lpn req) (mappingBytes e req)) s2 t
                       in doIO e (DramWrite (lpn req) (mappingBytes e req)) sa ta)
                 else (s2, t));
              readBeforeWrite = (\<not> bRandomTweak e \<and> \<not> bit_all (ioFlag req))
          in bindE (foldE (writeUnit e req blk t3 readBeforeWrite sendToPAL) [0..<bitsetSize e] (s3, t))
               (\<lambda>(s4, finishedAt).
                  let t4 = (if sendToPAL then finishedAt + applyLatency e WRITE_INTERNAL else t3) in
                  if belowGcThreshold e (nFreeBlocks s4) then
                    (if \<not> sendToPAL then Inl (Panic ''ftl: GC triggered while in initialization'')
                     else bindE (gcOnDemand e s4 t4) (\<lambda>s5. Inr (s5, t4)))
                  else Inr (s4, t4)))))"

text \<open>The loop of \<^verbatim>\<open>trimInternal\<close> (and of \<^verbatim>\<open>format\<close>) over the slots of a mapping.\<close>

definition trimUnit :: "(nat \<times> nat) list \<Rightarrow> nat \<Rightarrow> ftl \<Rightarrow> error + ftl" where
  "trimUnit ml idx s =
     (if idx \<ge> length ml then Inl OutOfRange
      else
        (case blocks s (fst (ml ! idx)) of
           None \<Rightarrow> Inl (Panic ''Block is not in use'')
         | Some b \<Rightarrow>
             bindE (block_invalidate b (snd (ml ! idx)) idx)
               (\<lambda>b'. Inr (s\<lparr>blocks := (blocks s)(fst (ml ! idx) \<mapsto> b')\<rparr>))))"

definition trimInternal :: "env \<Rightarrow> ftl \<Rightarrow> request \<Rightarrow> tick \<Rightarrow> error + (ftl \<times> tick)" where
  "trimInternal e s req t =
     (case map_of (table s) (lpn req) of
        None \<Rightarrow> Inr (s, t)
      | Some ml \<Rightarrow>
          (let (s1, t1) = doIO e (DramRead (lpn req) (mappingBytes e req)) s t in
           bindE (foldE (trimUnit ml) [0..<bitsetSize e] s1)
             (\<lambda>s2. Inr (s2\<lparr>table := AList.delete (lpn req) (table s2)\<rparr>,
                         t1 + applyLatency e TRIM_INTERNAL))))"

subsection \<open>Refresh\<close>

text \<open>
  The copy of one I/O unit in \<^verbatim>\<open>refreshPage\<close>. Unlike the collection, a missing mapping
  entry is skipped (after the invalidation), and \<^verbatim>\<open>beginAt\<close> is the tick at entry.
\<close>

definition refreshCopyUnit ::
  "env \<Rightarrow> nat \<Rightarrow> nat \<Rightarrow> nat \<Rightarrow> nat list \<Rightarrow> bitset \<Rightarrow> tick \<Rightarrow> nat
     \<Rightarrow> ftl \<times> tick \<times> pal_request list \<Rightarrow> error + (ftl \<times> tick \<times> pal_request list)" where
  "refreshCopyUnit e src page newBlk lpns bits beginAt idx = (\<lambda>(s, t, wr).
     if bit_test bits idx then
       (case blocks s src of
          None \<Rightarrow> Inl (Undefined ''the block is not in use'')
        | Some b \<Rightarrow>
            bindE (block_invalidate b page idx) (\<lambda>b'.
            let s1 = s\<lparr>blocks := (blocks s)(src \<mapsto> b')\<rparr> in
            if idx \<ge> length lpns then Inl OutOfRange
            else
              (case map_of (table s1) (lpns ! idx) of
                 None \<Rightarrow> Inr (s1, t, wr)
               | Some ml \<Rightarrow>
                   (let (s2, t') = doIO e (DramRead (lpns ! idx) (8 * ioUnitInPage e)) s1 t in
                    if idx \<ge> length ml then Inl OutOfRange
                    else
                      (case blocks s2 newBlk of
                         None \<Rightarrow> Inl (Undefined ''the write target is not in use'')
                       | Some fb \<Rightarrow>
                           bindE (block_getNextWritePageIndex fb idx) (\<lambda>(newPage, fb1).
                           bindE (block_write fb1 newPage (lpns ! idx) idx beginAt) (\<lambda>fb2.
                           Inr (s2\<lparr>table := AList.map_entry (lpns ! idx)
                                                (\<lambda>m. m[idx := (newBlk, newPage)]) (table s2),
                                     blocks := (blocks s2)(newBlk \<mapsto> fb2),
                                     refreshPageCopies := refreshPageCopies s2 + 1\<rparr>,
                                t',
                                wr @ [\<lparr>blockIndex = newBlk, pageIndex = newPage,
                                        palFlag = (if bRandomTweak e then bit_only bits idx
                                                   else bit_set_all bits)\<rparr>]))))))))
     else Inr (s, t, wr))"

definition refreshCopyPage ::
  "env \<Rightarrow> nat \<Rightarrow> tick \<Rightarrow> nat \<Rightarrow> ftl \<times> tick \<times> pal_request list \<times> pal_request list
     \<Rightarrow> error + (ftl \<times> tick \<times> pal_request list \<times> pal_request list)" where
  "refreshCopyPage e src beginAt page = (\<lambda>(s, t, rd, wr).
     case blocks s src of
       None \<Rightarrow> Inl (Undefined ''the block is not in use'')
     | Some b \<Rightarrow>
         if getValidPageCount b \<noteq> 0 then
           bindE (block_getPageInfo b page) (\<lambda>(lpns, bits0, _).
           let bits = (if bRandomTweak e then bits0 else bit_set_all bits0) in
           bindE (getLastFreeBlock e s bits) (\<lambda>(s1, newBlk).
           bindE (foldE (refreshCopyUnit e src page newBlk lpns bits beginAt) [0..<bitsetSize e]
                    (s1, t, wr))
             (\<lambda>(s2, t2, wr2).
                Inr (s2\<lparr>refreshSuperPageCopies := refreshSuperPageCopies s2 + 1\<rparr>, t2,
                     rd @ [\<lparr>blockIndex = src, pageIndex = page, palFlag = bits\<rparr>], wr2))))
         else Inr (s, t, rd, wr))"

text \<open>The pages of a layer: \<^verbatim>\<open>for (p = layerNum; p < pagesInBlock; p += 64)\<close>.\<close>

definition layerPages :: "nat \<Rightarrow> nat \<Rightarrow> nat list" where
  "layerPages layerNum pages = map (\<lambda>k. layerNum + 64 * k) [0..<(pages - layerNum + 63) div 64]"

definition refreshPage :: "env \<Rightarrow> ftl \<Rightarrow> nat \<Rightarrow> nat \<Rightarrow> tick \<Rightarrow> error + (ftl \<times> tick)" where
  "refreshPage e s blk layerNum t =
     bindE (if belowGcThreshold e (nFreeBlocks s) then gcOnDemand e s t else Inr s) (\<lambda>s1.
     case blocks s1 blk of
       None \<Rightarrow> Inr (s1, t)
     | Some _ \<Rightarrow>
         bindE (foldE (refreshCopyPage e blk t) (layerPages layerNum (pagesInBlock e)) (s1, t, [], []))
           (\<lambda>(s2, t2, rd, wr).
              let (s3, readFinishedAt) = issueAll e PalRead t2 rd (s2, t);
                  (s4, writeFinishedAt) = issueAll e PalWrite readFinishedAt wr (s3, t)
              in Inr (s4, max writeFinishedAt readFinishedAt
                          + applyLatency e DO_GARBAGE_COLLECTION)))"

text \<open>
  The choice of the Bloom level in \<^verbatim>\<open>refresh_event\<close>:
  \<^verbatim>\<open>while (target_bf < bloomFilters.size() - 1) { if ((RC_copy & 1) == 0) { target_bf++;
  RC_copy = RC_copy >> 1; } else break; }\<close>, with \<open>n\<close> the number of filters (at least one).
\<close>

function selectLevel :: "nat \<Rightarrow> nat \<Rightarrow> 64 word \<Rightarrow> nat" where
  "selectLevel n target_bf RC_copy =
     (if target_bf < n - 1
      then (if RC_copy AND 1 = 0 then selectLevel n (Suc target_bf) (drop_bit 1 RC_copy)
            else target_bf)
      else target_bf)"
  by pat_completeness auto
termination
  by (relation "measure (\<lambda>(n, t, rc). n - 1 - t)") auto

declare selectLevel.simps [simp del]

text \<open>
  What a sweep leaves in a filter: every key it asks the filter about counts as a true
  positive, a false positive or a true negative.
\<close>

definition bloomProbes :: "bloom_filter \<Rightarrow> nat" where
  "bloomProbes f = true_positive f + false_positive f + true_negative f"

definition sweepLayer ::
  "env \<Rightarrow> nat \<Rightarrow> nat \<times> nat \<Rightarrow> ftl \<times> tick \<times> 32 word \<Rightarrow> error + (ftl \<times> tick \<times> 32 word)" where
  "sweepLayer e target_bf = (\<lambda>(i, j) (s, t, layerCheckCnt).
     let item = refreshKey i j;
         refresh_entry = refresh_table s item;
         f = bloomFilters s ! target_bf
     in if bloom_contains e target_bf f item then
          (let f' = (if (case refresh_entry of Some r \<Rightarrow> r \<le> target_bf | None \<Rightarrow> False)
                     then f\<lparr>true_positive := Suc (true_positive f)\<rparr>
                     else f\<lparr>false_positive := Suc (false_positive f)\<rparr>)
           in bindE (refreshPage e (s\<lparr>bloomFilters := (bloomFilters s)[target_bf := f']\<rparr>) i j t)
                (\<lambda>(s1, t1). Inr (s1, t1, layerCheckCnt + 1)))
        else Inr (s\<lparr>bloomFilters :=
                      (bloomFilters s)[target_bf := f\<lparr>true_negative := Suc (true_negative f)\<rparr>]\<rparr>,
                  t, layerCheckCnt))"

text \<open>The number of layers of a block, \<^verbatim>\<open>num_layer = 64\<close>.\<close>

definition num_layer :: nat where
  "num_layer = 64"

text \<open>\<^verbatim>\<open>refresh_event\<close> takes the tick by value: only the state comes back.\<close>

definition refresh_event :: "env \<Rightarrow> ftl \<Rightarrow> tick \<Rightarrow> error + ftl" where
  "refresh_event e s t =
     (if bloomFilters s = [] then Inl (Undefined ''bloomFilters[target_bf] of an empty vector'')
      else
        (let target_bf = selectLevel (length (bloomFilters s)) 0 (refreshCallCount s) in
         bindE (foldE (sweepLayer e target_bf)
                  (List.product [0..<totalPhysicalBlocks e] [0..<num_layer]) (s, t, 0))
           (\<lambda>(s1, t1, layerCheckCnt).
              Inr (s1\<lparr>refreshCallCount := refreshCallCount s1 + 1,
                       layerCheckCount := layerCheckCount s1 + ucast layerCheckCnt\<rparr>))))"

subsection \<open>The public operations\<close>

definition PageMapping_read :: "env \<Rightarrow> ftl \<Rightarrow> request \<Rightarrow> tick \<Rightarrow> error + (ftl \<times> tick)" where
  "PageMapping_read e s req t =
     bindE (if bit_count (ioFlag req) > 0 then readInternal e s req t
            else Inr (s\<lparr>warnLog := warnLog s @ [''FTL got empty request'']\<rparr>, t))
       (\<lambda>(s1, t1). Inr (s1, t1 + applyLatency e READ))"

definition PageMapping_write :: "env \<Rightarrow> ftl \<Rightarrow> request \<Rightarrow> tick \<Rightarrow> error + (ftl \<times> tick)" where
  "PageMapping_write e s req t =
     bindE (if bit_count (ioFlag req) > 0 then writeInternal e s req t True
            else Inr (s\<lparr>warnLog := warnLog s @ [''FTL got empty request'']\<rparr>, t))
       (\<lambda>(s1, t1). Inr (s1, t1 + applyLatency e WRITE))"

definition PageMapping_trim :: "env \<Rightarrow> ftl \<Rightarrow> request \<Rightarrow> tick \<Rightarrow> error + (ftl \<times> tick)" where
  "PageMapping_trim e s req t =
     bindE (trimInternal e s req t) (\<lambda>(s1, t1). Inr (s1, t1 + applyLatency e TRIM))"

definition formatUnit ::
  "(nat \<times> nat) list \<Rightarrow> nat \<Rightarrow> ftl \<times> nat list \<Rightarrow> error + (ftl \<times> nat list)" where
  "formatUnit ml idx = (\<lambda>(s, list).
     bindE (trimUnit ml idx s) (\<lambda>s1. Inr (s1, list @ [fst (ml ! idx)])))"

text \<open>
  The body of the loop of \<^verbatim>\<open>format\<close> over the entries of the mapping table; the range
  test is \<^verbatim>\<open>iter->first >= range.slpn && iter->first < range.slpn + range.nlp\<close> in 64 bits.
\<close>

definition formatEntry ::
  "env \<Rightarrow> nat \<Rightarrow> nat \<Rightarrow> nat \<times> (nat \<times> nat) list \<Rightarrow> ftl \<times> nat list \<Rightarrow> error + (ftl \<times> nat list)" where
  "formatEntry e slpn nlp = (\<lambda>(k, ml) (s, list).
     if slpn \<le> k \<and> k < (slpn + nlp) mod 2 ^ 64 then
       bindE (foldE (formatUnit ml) [0..<bitsetSize e] (s, list))
         (\<lambda>(s1, list1). Inr (s1\<lparr>table := AList.delete k (table s1)\<rparr>, list1))
     else Inr (s, list))"

definition PageMapping_format :: "env \<Rightarrow> ftl \<Rightarrow> nat \<Rightarrow> nat \<Rightarrow> tick \<Rightarrow> error + (ftl \<times> tick)" where
  "PageMapping_format e s slpn nlp t =
     bindE (foldE (formatEntry e slpn nlp) (table s) (s, [])) (\<lambda>(s1, list).
     bindE (doGarbageCollection e s1 (remdups_adj (sort list)) t) (\<lambda>(s2, t2).
     Inr (s2, t2 + applyLatency e FORMAT)))"

subsection \<open>Construction and reachable states\<close>

definition PageMapping :: "env \<Rightarrow> error + ftl" where
  "PageMapping e =
     foldE (\<lambda>i s. bindE (getFreeBlock e s i)
                     (\<lambda>(s1, n). Inr (s1\<lparr>lastFreeBlock := (lastFreeBlock s1)[i := n]\<rparr>)))
       [0..<pageCountToMaxPerf e]
       \<lparr>freeBlocks = map (\<lambda>i. newBlock i (pagesInBlock e) (ioUnitInPage e)
                                     (initEraseCount e mod 2 ^ 32))
                       [0..<totalPhysicalBlocks e],
        nFreeBlocks = totalPhysicalBlocks e, blocks = Map.empty, table = [],
        lastFreeBlock = replicate (pageCountToMaxPerf e) 0, lastFreeBlockIndex = 0,
        lastFreeBlockIOMap = replicate (ioUnitInPage e) False, bReclaimMore = False,
        bloomFilters = [], refresh_table = Map.empty, gcCount = 0, reclaimedBlocks = 0,
        validSuperPageCopies = 0, validPageCopies = 0, refreshSuperPageCopies = 0,
        refreshPageCopies = 0, refreshCallCount = 0, layerCheckCount = 0, ioLog = [],
        warnLog = []\<rparr>"

text \<open>
  \<^verbatim>\<open>initialize\<close>. The page counts are products of floats read from the configuration:
  \<open>tooHigh\<close> is the outcome of the comparison
  \<^verbatim>\<open>nPagesToWarmup + nPagesToInvalidate > maxPagesBeforeGC\<close>, which logs a warning (and
  lowers the number of pages to invalidate). Then come the warm-up writes of step 1 and step 2
  (\<open>fill\<close> is the sequence of LPNs they write, drawn at random in some filling modes),
  then the Bloom filters and the call count 1.
\<close>

definition initialize :: "env \<Rightarrow> ftl \<Rightarrow> bool \<Rightarrow> nat list \<Rightarrow> error + ftl" where
  "initialize e s tooHigh fill =
     bindE (foldE (\<lambda>l s. bindE (writeInternal e s \<lparr>lpn = l, ioFlag = replicate (ioUnitInPage e) True\<rparr> 0 False)
                           (\<lambda>(s1, _). Inr s1)) fill
              (if tooHigh
               then s\<lparr>warnLog := warnLog s @ [''ftl: Too high filling ratio. Adjusting invalidPageRatio.'']\<rparr>
               else s))
       (\<lambda>s1. if refresh_filter_num e = 0
              then Inl (Undefined ''bloomFilters[0] of an empty vector'')
              else Inr (s1\<lparr>bloomFilters := replicate (refresh_filter_num e) emptyBloom,
                           refreshCallCount := 1\<rparr>))"

datatype ftl_op = Read request | Write request | Trim request | Format nat nat | RefreshEvent

definition run_op :: "env \<Rightarrow> ftl_op \<Rightarrow> ftl \<Rightarrow> tick \<Rightarrow> error + (ftl \<times> tick)" where
  "run_op e op s t =
     (case op of
        Read req \<Rightarrow> PageMapping_read e s req t
      | Write req \<Rightarrow> PageMapping_write e s req t
      | Trim req \<Rightarrow> PageMapping_trim e s req t
      | Format slpn nlp \<Rightarrow> PageMapping_format e s slpn nlp t
      | RefreshEvent \<Rightarrow> bindE (refresh_event e s t) (\<lambda>s1. Inr (s1, t)))"

text \<open>
  The states the FTL can be in between two public operations. The engine's clock
  (\<^verbatim>\<open>getTick()\<close>) and the value of the uninitialised variable differ from call to call.
\<close>

inductive reachable :: "env \<Rightarrow> ftl \<Rightarrow> bool" for e :: env where
  reach_init: "PageMapping (e\<lparr>getTick := now\<rparr>) = Inr s0
      \<Longrightarrow> initialize (e\<lparr>getTick := now\<rparr>) s0 tooHigh fill = Inr s \<Longrightarrow> reachable e s"
| reach_step: "reachable e s
      \<Longrightarrow> run_op (e\<lparr>getTick := now, uninitialisedTick := u\<rparr>) op s t = Inr (s', t')
      \<Longrightarrow> reachable e s'"

subsection \<open>Mapping entries whose pages exist\<close>

text \<open>
  A slot \<open>(block, page)\<close> of a mapping entry is in range for the I/O unit \<open>i\<close> when its
  block, if it is in use, has the page and the unit. \<open>blockShape\<close> is what this depends on:
  which blocks are in use and how many bits their pages have.
\<close>

definition blockShape :: "ftl \<Rightarrow> nat \<Rightarrow> nat list option" where
  "blockShape s k = map_option (\<lambda>b. map length (validBits b)) (blocks s k)"

definition slotOk :: "ftl \<Rightarrow> nat \<times> nat \<Rightarrow> nat \<Rightarrow> bool" where
  "slotOk s m i = (case blocks s (fst m) of None \<Rightarrow> True | Some b \<Rightarrow> in_bits (validBits b) (snd m) i)"

definition slotsInRange :: "ftl \<Rightarrow> (nat \<times> nat) list \<Rightarrow> nat \<Rightarrow> bool" where
  "slotsInRange s ml n = (n \<le> length ml \<and> list_all (\<lambda>i. slotOk s (ml ! i) i) [0..<n])"

subsection \<open>Reading the log of collaborator calls\<close>

definition isDramRead :: "io_call \<Rightarrow> bool" where
  "isDramRead c = (case c of DramRead _ _ \<Rightarrow> True | _ \<Rightarrow> False)"

definition isPalRead :: "io_call \<Rightarrow> bool" where
  "isPalRead c = (case c of PalRead _ \<Rightarrow> True | _ \<Rightarrow> False)"

definition isPalWrite :: "io_call \<Rightarrow> bool" where
  "isPalWrite c = (case c of PalWrite _ \<Rightarrow> True | _ \<Rightarrow> False)"

definition isPalErase :: "io_call \<Rightarrow> bool" where
  "isPalErase c = (case c of PalErase _ \<Rightarrow> True | _ \<Rightarrow> False)"

definition beginOf :: "io_event \<Rightarrow> tick" where
  "beginOf ev = fst (snd ev)"

definition finishOf :: "io_event \<Rightarrow> tick" where
  "finishOf ev = snd (snd ev)"

text \<open>The running maximum \<^verbatim>\<open>MAX(finishedAt, beginAt)\<close> over a list of finish ticks, from \<open>t\<close>.\<close>

definition maxFinish :: "tick \<Rightarrow> tick list \<Rightarrow> tick" where
  "maxFinish t fs = foldl max t fs"

text \<open>The tick after a sequence of calls each of which begins where the previous one finished.\<close>

definition lastFinish :: "tick \<Rightarrow> io_event list \<Rightarrow> tick" where
  "lastFinish t evs = (if evs = [] then t else finishOf (last evs))"

text \<open>A sequence of calls the first of which begins at \<open>t\<close> and each next one where the
  previous one finished.\<close>

fun chained :: "tick \<Rightarrow> io_event list \<Rightarrow> bool" where
  "chained t [] = True"
| "chained t (ev # evs) = (beginOf ev = t \<and> chained (finishOf ev) evs)"

text \<open>Two states (FTL, tick, write requests) of the collecting loops of a collection: the log
  has grown by DRAM reads only, chained from the first tick; the second tick is the finish
  tick of the last of them; and there is one new write request per DRAM read.\<close>

definition dramOnly ::
  "ftl \<times> tick \<times> pal_request list \<Rightarrow> ftl \<times> tick \<times> pal_request list \<Rightarrow> bool" where
  "dramOnly a b \<longleftrightarrow>
     (\<exists>D. ioLog (fst b) = ioLog (fst a) @ D \<and> (\<forall>ev \<in> set D. isDramRead (fst ev))
          \<and> chained (fst (snd a)) D
          \<and> fst (snd b) = lastFinish (fst (snd a)) D
          \<and> length (snd (snd b)) = length (snd (snd a)) + length D)"

section \<open>Example configurations\<close>

definition exEnv :: env where
  "exEnv = \<lparr>totalPhysicalBlocks = 3, pagesInBlock = 2, ioUnitInPage = 1, pageCountToMaxPerf = 1,
     bRandomTweak = False, initEraseCount = 0, badBlockThreshold = 2, refresh_filter_num = 2,
     refresh_period = 1, belowGcThreshold = (\<lambda>n. n < 1), applyLatency = (\<lambda>_. 1),
     ioFinish = (\<lambda>_ _ t. t + 10), getRBER = (\<lambda>_ _ _. 0), bloomFalsePositive = (\<lambda>_ _ _. False),
     selectVictims = (\<lambda>_ _. Inr []), getTick = 0, uninitialisedTick = 0\<rparr>"

definition exPool :: "block list \<Rightarrow> (nat \<rightharpoonup> block) \<Rightarrow> ftl" where
  "exPool fb bl = \<lparr>freeBlocks = fb, nFreeBlocks = length fb, blocks = bl, table = [],
     lastFreeBlock = [0], lastFreeBlockIndex = 0, lastFreeBlockIOMap = [False], bReclaimMore = False,
     bloomFilters = [], refresh_table = Map.empty, gcCount = 0, reclaimedBlocks = 0,
     validSuperPageCopies = 0, validPageCopies = 0, refreshSuperPageCopies = 0, refreshPageCopies = 0,
     refreshCallCount = 1, layerCheckCount = 0, ioLog = [], warnLog = []\<rparr>"

definition exReq :: pal_request where
  "exReq = \<lparr>blockIndex = 0, pageIndex = 0, palFlag = [True]\<rparr>"

definition exBoot :: ftl where
  "exBoot = (exPool [newBlock 1 2 1 0, newBlock 2 2 1 0] [0 \<mapsto> newBlock 0 2 1 0])
              \<lparr>bloomFilters := [emptyBloom, emptyBloom]\<rparr>"

definition exEnvR :: env where
  "exEnvR = exEnv\<lparr>getRBER := (\<lambda>t _ _. if t < 2000000000 then 0 else 1)\<rparr>"

definition exEnvT :: env where
  "exEnvT = exEnv\<lparr>bRandomTweak := True, ioUnitInPage := 2\<rparr>"

definition exBootT :: ftl where
  "exBootT = (exPool [newBlock 1 2 2 0, newBlock 2 2 2 0] [0 \<mapsto> newBlock 0 2 2 0])
               \<lparr>bloomFilters := [emptyBloom, emptyBloom], lastFreeBlockIOMap := [False, False]\<rparr>"

definition exFull :: ftl where
  "exFull = exBoot
     \<lparr>blocks := [0 \<mapsto> \<lparr>blockIdx = 0, eraseCount = 0, nextWritePageIndex = [2],
                         validBits = [[True], [True]], erasedBits = [[False], [False]],
                         lpnOf = [[5], [6]], lastAccessed = 220, lastWritten = 0,
                         maxErrorCount = 0\<rparr>],
       table := [(5, [(0, 0)]), (6, [(0, 1)])],
       lastFreeBlockIOMap := [True],
       bloomFilters := [emptyBloom, emptyBloom\<lparr>inserted := [0, 1], actual_insert := 2\<rparr>],
       refresh_table := [0 \<mapsto> 1, 1 \<mapsto> 1],
       ioLog := [(DramRead 5 8, 100, 110), (DramWrite 5 8, 110, 120),
                 (PalWrite \<lparr>blockIndex = 0, pageIndex = 0, palFlag = [True]\<rparr>, 120, 130),
                 (DramRead 6 8, 200, 210), (DramWrite 6 8, 210, 220),
                 (PalWrite \<lparr>blockIndex = 0, pageIndex = 1, palFlag = [True]\<rparr>, 220, 230)]\<rparr>"

section \<open>Properties\<close>

lemma bindE_simps [simp]:
  "bindE (Inl x) f = Inl x" "bindE (Inr y) f = f y"
  by (simp_all add: bindE_def)

lemma bindE_Inr: "bindE m f = Inr y \<longleftrightarrow> (\<exists>x. m = Inr x \<and> f x = Inr y)"
  by (cases m) simp_all


lemma reverseSearch_le: "reverseSearch xs c i = Some p \<Longrightarrow> p \<le> i"
  by (induction i) (auto split: if_splits)

lemma reverseSearch_Some: "0 < i \<Longrightarrow> \<exists>p. reverseSearch xs c i = Some p"
  by (induction i) auto

lemma reverseSearch_None: "reverseSearch xs c i = None \<longleftrightarrow> i = 0"
  using reverseSearch_Some [of i xs c] by (cases i) auto

lemma eraseCount_block_erase [simp]: "eraseCount (block_erase b) = Suc (eraseCount b) mod 2 ^ 32"
  by (simp add: block_erase_def)

lemma blockIdx_block_erase [simp]: "blockIdx (block_erase b) = blockIdx b"
  by (simp add: block_erase_def)

lemma doIO_fields [simp]:
  "freeBlocks (fst (doIO e c s t)) = freeBlocks s"
  "nFreeBlocks (fst (doIO e c s t)) = nFreeBlocks s"
  "blocks (fst (doIO e c s t)) = blocks s"
  "table (fst (doIO e c s t)) = table s"
  by (simp_all add: doIO_def Let_def)

text \<open>
  Claim C4 (amended). \<^verbatim>\<open>eraseInternal\<close> on a block in use: with a valid page left it is
  the fatal panic; otherwise it returns (given a free list that is not empty, or a block that
  retires), the block has left the blocks in use, and its erase count is the old one plus one
  in 32 bits: exactly one more while the old count is below \<open>2 ^ 32 - 1\<close>, and 0 after
  \<open>2 ^ 32 - 1\<close>. The block is put into the free list (which grows by this one block,
  \<^verbatim>\<open>nFreeBlocks\<close> by one) if and only if this 32-bit count after the increment is strictly
  below \<^verbatim>\<open>badBlockThreshold\<close>; otherwise the free pool is as before and the block is
  discarded.
\<close>

theorem eraseInternal_contract:
  assumes "blocks s (blockIndex req) = Some b"
  shows "(getValidPageCount b \<noteq> 0 \<longrightarrow>
            eraseInternal e s req t = Inl (Panic ''There are valid pages in victim block''))
       \<and> (getValidPageCount b = 0
            \<and> (freeBlocks s \<noteq> [] \<or> badBlockThreshold e \<le> (eraseCount b + 1) mod 2 ^ 32) \<longrightarrow>
            (\<exists>s' t'. eraseInternal e s req t = Inr (s', t')))
       \<and> (\<forall>s' t'. eraseInternal e s req t = Inr (s', t') \<longrightarrow>
            getValidPageCount b = 0 \<and> blocks s' (blockIndex req) = None \<and>
            eraseCount (block_erase b) = (eraseCount b + 1) mod 2 ^ 32 \<and>
            (eraseCount b < 2 ^ 32 - 1 \<longrightarrow> eraseCount (block_erase b) = eraseCount b + 1) \<and>
            (eraseCount b = 2 ^ 32 - 1 \<longrightarrow> eraseCount (block_erase b) = 0) \<and>
            (if (eraseCount b + 1) mod 2 ^ 32 < badBlockThreshold e
             then nFreeBlocks s' = nFreeBlocks s + 1 \<and>
                  (\<exists>p \<le> length (freeBlocks s).
                     freeBlocks s' = take p (freeBlocks s) @ [block_erase b] @ drop p (freeBlocks s))
             else nFreeBlocks s' = nFreeBlocks s \<and> freeBlocks s' = freeBlocks s))"
proof -
  define c where "c = Suc (eraseCount b) mod 2 ^ 32"
  have cc: "c mod 4294967296 = c" by (simp add: c_def)
  have ec: "eraseCount (block_erase b) = c" by (simp add: c_def)
  have A: "getValidPageCount b \<noteq> 0 \<longrightarrow> eraseInternal e s req t = Inl (Panic ''There are valid pages in victim block'')"
    using assms by (simp add: eraseInternal_def)
  have B: "\<exists>s' t'. eraseInternal e s req t = Inr (s', t')"
    if h: "getValidPageCount b = 0 \<and> (freeBlocks s \<noteq> [] \<or> badBlockThreshold e \<le> c)"
  proof (cases "c < badBlockThreshold e")
    case True
    with h have "freeBlocks s \<noteq> []" by auto
    then obtain p where "reverseSearch (freeBlocks s) c (length (freeBlocks s)) = Some p"
      using reverseSearch_Some [of "length (freeBlocks s)"] by auto
    with assms h True show ?thesis
      by (simp add: eraseInternal_def Let_def split_beta ec cc del: eraseCount_block_erase)
  next
    case False
    with assms h show ?thesis
      by (simp add: eraseInternal_def Let_def split_beta ec cc del: eraseCount_block_erase)
  qed
  have C: "getValidPageCount b = 0 \<and> blocks s' (blockIndex req) = None \<and>
            (if c < badBlockThreshold e
             then nFreeBlocks s' = nFreeBlocks s + 1 \<and>
                  (\<exists>p \<le> length (freeBlocks s).
                     freeBlocks s' = take p (freeBlocks s) @ [block_erase b] @ drop p (freeBlocks s))
             else nFreeBlocks s' = nFreeBlocks s \<and> freeBlocks s' = freeBlocks s)"
    if r: "eraseInternal e s req t = Inr (s', t')" for s' t'
  proof -
    from r assms have v: "getValidPageCount b = 0"
      by (auto simp: eraseInternal_def split: if_splits)
    show ?thesis
    proof (cases "c < badBlockThreshold e")
      case True
      with r assms v obtain p where
        p: "reverseSearch (freeBlocks s) c (length (freeBlocks s)) = Some p"
        and s': "s' = (fst (doIO e (PalErase req) s t))\<lparr>freeBlocks := take p (freeBlocks s) @ [block_erase b] @ drop p (freeBlocks s),
                                 nFreeBlocks := Suc (nFreeBlocks s),
                                 blocks := (blocks s)(blockIndex req := None)\<rparr>"
        by (auto simp: eraseInternal_def Let_def split_beta ec cc split: option.splits
            simp del: eraseCount_block_erase)
      from p have "p \<le> length (freeBlocks s)" by (rule reverseSearch_le)
      with s' v True show ?thesis by auto
    next
      case False
      with r assms v show ?thesis
        by (auto simp: eraseInternal_def Let_def split_beta ec cc simp del: eraseCount_block_erase)
    qed
  qed
  have D: "eraseCount b < 2 ^ 32 - 1 \<longrightarrow> eraseCount (block_erase b) = eraseCount b + 1"
    by simp
  have E: "eraseCount b = 2 ^ 32 - 1 \<longrightarrow> eraseCount (block_erase b) = 0"
    by simp
  have F: "(eraseCount b + 1) mod 2 ^ 32 = c" by (simp add: c_def)
  from A B C D E show ?thesis unfolding F ec by blast
qed

theorem eraseInternal_contract_witness:
  "blocks (exPool [newBlock 1 2 1 0] [0 \<mapsto> newBlock 0 2 1 0]) (blockIndex exReq) = Some (newBlock 0 2 1 0)
   \<and> getValidPageCount (newBlock 0 2 1 0) = 0
   \<and> (\<exists>s' t'. eraseInternal exEnv (exPool [newBlock 1 2 1 0] [0 \<mapsto> newBlock 0 2 1 0]) exReq 0 = Inr (s', t')
         \<and> blocks s' 0 = None \<and> nFreeBlocks s' = 2
         \<and> eraseCount (block_erase (newBlock 0 2 1 0)) = 1)"
proof -
  let ?s = "exPool [newBlock 1 2 1 0] [0 \<mapsto> newBlock 0 2 1 0]"
  have b: "blocks ?s (blockIndex exReq) = Some (newBlock 0 2 1 0)"
    by (simp add: exPool_def exReq_def)
  have v: "getValidPageCount (newBlock 0 2 1 0) = 0"
    by (simp add: getValidPageCount_def newBlock_def bit_count_def)
  have f: "freeBlocks ?s \<noteq> []" by (simp add: exPool_def)
  have c: "(eraseCount (newBlock 0 2 1 0) + 1) mod 2 ^ 32 < badBlockThreshold exEnv"
    "eraseCount (newBlock 0 2 1 0) < 2 ^ 32 - 1" "eraseCount (newBlock 0 2 1 0) + 1 = 1"
    by (simp_all add: newBlock_def exEnv_def)
  have n: "nFreeBlocks ?s = 1" "blockIndex exReq = 0" by (simp_all add: exPool_def exReq_def)
  note th = eraseInternal_contract [OF b, of exEnv 0]
  from th v f obtain s' t' where r: "eraseInternal exEnv ?s exReq 0 = Inr (s', t')" by blast
  from th r c n have "blocks s' 0 = None" "nFreeBlocks s' = 2"
    "eraseCount (block_erase (newBlock 0 2 1 0)) = 1"
    by (metis, metis one_add_one, metis)
  with b v r show ?thesis by blast
qed

text \<open>
  The claim C4 as it was stated (the count grows by exactly one, the block is requeued only
  if the count after the increment is below the threshold) fails at the last 32-bit count:
  with the threshold 2, a block erased \<open>2 ^ 32 - 1\<close> times and erased once more comes back
  to the free pool with the count 0.
\<close>

theorem eraseInternal_count_wraps_counterexample:
  "(case eraseInternal exEnv (exPool [newBlock 1 2 1 0] [0 \<mapsto> newBlock 0 2 1 4294967295]) exReq 0 of
      Inl _ \<Rightarrow> False
    | Inr (s', t') \<Rightarrow>
        nFreeBlocks s' = 2 \<and> map blockIdx (freeBlocks s') = [1, 0]
        \<and> map eraseCount (freeBlocks s') = [0, 0] \<and> blocks s' 0 = None)
   \<and> \<not> 4294967295 + 1 < badBlockThreshold exEnv"
  by (simp add: eraseInternal_def exPool_def exReq_def exEnv_def newBlock_def block_erase_def
      getValidPageCount_def bit_count_def doIO_def Let_def)


text \<open>
  Claim C10. The reverse search decrements the end iterator before it looks at anything. For
  a block in use with no valid page whose count stays below the threshold, the search (and
  with it \<^verbatim>\<open>eraseInternal\<close>) has a defined result exactly when the free list is not empty:
  on the empty free list the operation is the decrement of \<^verbatim>\<open>begin()\<close>, with no defined
  result.
\<close>

theorem eraseInternal_reinsertion_needs_free_block:
  assumes "blocks s (blockIndex req) = Some b"
    and "getValidPageCount b = 0"
    and "Suc (eraseCount b) mod 2 ^ 32 < badBlockThreshold e"
  shows "(reverseSearch (freeBlocks s) (Suc (eraseCount b) mod 2 ^ 32) (length (freeBlocks s)) = None
            \<longleftrightarrow> freeBlocks s = [])
       \<and> (freeBlocks s = [] \<longrightarrow>
            eraseInternal e s req t = Inl (Undefined ''decrement of begin() of the empty free list''))
       \<and> (freeBlocks s \<noteq> [] \<longrightarrow> (\<exists>s' t'. eraseInternal e s req t = Inr (s', t')))"
proof -
  have A: "reverseSearch (freeBlocks s) (Suc (eraseCount b) mod 2 ^ 32) (length (freeBlocks s)) = None
            \<longleftrightarrow> freeBlocks s = []"
    by (simp add: reverseSearch_None)
  have B: "eraseInternal e s req t = Inl (Undefined ''decrement of begin() of the empty free list'')"
    if "freeBlocks s = []"
    using assms that by (simp add: eraseInternal_def Let_def split_beta)
  have C: "\<exists>s' t'. eraseInternal e s req t = Inr (s', t')" if "freeBlocks s \<noteq> []"
  proof -
    from that obtain p where
      "reverseSearch (freeBlocks s) (Suc (eraseCount b) mod 2 ^ 32) (length (freeBlocks s)) = Some p"
      using A by auto
    with assms show ?thesis
      by (simp add: eraseInternal_def Let_def split_beta)
  qed
  from A B C show ?thesis by blast
qed

theorem eraseInternal_reinsertion_needs_free_block_witness:
  "eraseInternal exEnv (exPool [] [0 \<mapsto> newBlock 0 2 1 0]) exReq 0
     = Inl (Undefined ''decrement of begin() of the empty free list'')
   \<and> (\<exists>s' t'. eraseInternal exEnv (exPool [newBlock 1 2 1 0] [0 \<mapsto> newBlock 0 2 1 0]) exReq 0
         = Inr (s', t'))"
proof -
  let ?b = "newBlock 0 2 1 0"
  have v: "getValidPageCount ?b = 0"
    by (simp add: getValidPageCount_def newBlock_def bit_count_def)
  have c: "Suc (eraseCount ?b) mod 2 ^ 32 < badBlockThreshold exEnv"
    by (simp add: newBlock_def exEnv_def)
  have b0: "blocks (exPool [] [0 \<mapsto> ?b]) (blockIndex exReq) = Some ?b"
    and b1: "blocks (exPool [newBlock 1 2 1 0] [0 \<mapsto> ?b]) (blockIndex exReq) = Some ?b"
    by (simp_all add: exPool_def exReq_def)
  have f0: "freeBlocks (exPool [] [0 \<mapsto> ?b]) = []"
    and f1: "freeBlocks (exPool [newBlock 1 2 1 0] [0 \<mapsto> ?b]) \<noteq> []"
    by (simp_all add: exPool_def)
  from eraseInternal_reinsertion_needs_free_block [OF b0 v c, of 0] f0
       eraseInternal_reinsertion_needs_free_block [OF b1 v c, of 0] f1
  show ?thesis by blast
qed

text \<open>
  Claim C8. A read or a write whose I/O map has no bit set logs the warning and does nothing
  else: the state is the old one with the warning appended (mapping table, blocks, free pool
  and the log of PAL and DRAM calls are untouched, no collection runs), and the tick advances
  by the CPU latency of the operation only.
\<close>

theorem empty_request_charges_latency_only:
  assumes "bit_count (ioFlag req) = 0"
  shows "PageMapping_read e s req t
           = Inr (s\<lparr>warnLog := warnLog s @ [''FTL got empty request'']\<rparr>, t + applyLatency e READ)
       \<and> PageMapping_write e s req t
           = Inr (s\<lparr>warnLog := warnLog s @ [''FTL got empty request'']\<rparr>, t + applyLatency e WRITE)"
  using assms by (simp add: PageMapping_read_def PageMapping_write_def)

theorem empty_request_charges_latency_only_witness:
  "bit_count (ioFlag \<lparr>lpn = 3, ioFlag = [False]\<rparr>) = 0
   \<and> PageMapping_read exEnv (exPool [] Map.empty) \<lparr>lpn = 3, ioFlag = [False]\<rparr> 100
       = Inr ((exPool [] Map.empty)\<lparr>warnLog := [''FTL got empty request'']\<rparr>, 101)
   \<and> PageMapping_write exEnv (exPool [] Map.empty) \<lparr>lpn = 3, ioFlag = [False]\<rparr> 100
       = Inr ((exPool [] Map.empty)\<lparr>warnLog := [''FTL got empty request'']\<rparr>, 101)"
proof -
  have h: "bit_count (ioFlag \<lparr>lpn = 3, ioFlag = [False]\<rparr>) = 0"
    by (simp add: bit_count_def)
  have w: "warnLog (exPool [] Map.empty) = []" "applyLatency exEnv READ = 1" "applyLatency exEnv WRITE = 1"
    by (simp_all add: exPool_def exEnv_def)
  from empty_request_charges_latency_only [OF h, of exEnv "exPool [] Map.empty" 100] h w
  show ?thesis by simp
qed

lemma bindE_InrE:
  assumes "bindE m f = Inr y"
  obtains x where "m = Inr x" "f x = Inr y"
  using assms by (cases m) simp_all

lemma foldE_inv:
  assumes "foldE f xs a = Inr b" and "P a"
    and "\<And>x a b. x \<in> set xs \<Longrightarrow> P a \<Longrightarrow> f x a = Inr b \<Longrightarrow> P b"
  shows "P b"
  using assms
proof (induction xs arbitrary: a)
  case Nil
  then show ?case by simp
next
  case (Cons x xs)
  from Cons.prems(1) obtain c where c: "f x a = Inr c" "foldE f xs c = Inr b"
    by (auto elim: bindE_InrE)
  have "P c" using Cons.prems(2,3) c(1) by auto
  with Cons.IH [OF c(2)] Cons.prems(3) show ?case by auto
qed

lemma foldE_rel:
  assumes "foldE f xs a = Inr b"
    and "\<And>x a b. x \<in> set xs \<Longrightarrow> f x a = Inr b \<Longrightarrow> R (fst a) (fst b)"
    and "\<And>s. R s s"
    and "\<And>s1 s2 s3. R s1 s2 \<Longrightarrow> R s2 s3 \<Longrightarrow> R s1 s3"
  shows "R (fst a) (fst b)"
  by (rule foldE_inv [OF assms(1), where P = "\<lambda>c. R (fst a) (fst c)"])
     (blast intro: assms(2-4))+

definition refreshFrame :: "ftl \<Rightarrow> ftl \<Rightarrow> bool" where
  "refreshFrame s s' \<longleftrightarrow> bloomFilters s' = bloomFilters s \<and> refresh_table s' = refresh_table s
     \<and> refreshCallCount s' = refreshCallCount s \<and> layerCheckCount s' = layerCheckCount s"

lemma refreshFrame_refl [simp]: "refreshFrame s s"
  by (simp add: refreshFrame_def)

lemma refreshFrame_trans: "refreshFrame a b \<Longrightarrow> refreshFrame b c \<Longrightarrow> refreshFrame a c"
  by (simp add: refreshFrame_def)

lemma refreshFrame_doIO: "refreshFrame s (fst (doIO e c s t))"
  by (simp add: refreshFrame_def doIO_def Let_def)

lemma doIO_eq: "doIO e c s t = (s', t') \<Longrightarrow> refreshFrame s s'"
  by (auto simp: refreshFrame_def doIO_def Let_def)

lemma getFreeBlock_frame: "getFreeBlock e s i = Inr (s', n) \<Longrightarrow> refreshFrame s s'"
  by (auto simp: getFreeBlock_def refreshFrame_def Let_def split: if_splits)

lemma getLastFreeBlock_frame: "getLastFreeBlock e s m = Inr (s', n) \<Longrightarrow> refreshFrame s s'"
  by (auto simp: getLastFreeBlock_def refreshFrame_def Let_def
      split: if_splits option.splits elim!: bindE_InrE dest!: getFreeBlock_frame)

lemma eraseInternal_frame: "eraseInternal e s r t = Inr (s', t') \<Longrightarrow> refreshFrame s s'"
  by (auto simp: eraseInternal_def refreshFrame_def doIO_def Let_def
      split: if_splits option.splits)

lemma gcCopyUnit_frame:
  "gcCopyUnit e src page nb lpns bits idx (s, t, wr) = Inr (s', t', wr') \<Longrightarrow> refreshFrame s s'"
  by (auto simp: gcCopyUnit_def refreshFrame_def doIO_def Let_def
      split: if_splits option.splits elim!: bindE_InrE)

lemma gcCopyPage_frame:
  assumes "gcCopyPage e src page (s, t, rd, wr) = Inr (s', t', rd', wr')"
  shows "refreshFrame s s'"
proof (cases "blocks s src")
  case None
  with assms show ?thesis by (simp add: gcCopyPage_def)
next
  case (Some b)
  from assms Some obtain lpns bits0 valid where
    pi: "block_getPageInfo b page = Inr (lpns, bits0, valid)"
    by (auto simp: gcCopyPage_def elim!: bindE_InrE)
  show ?thesis
  proof (cases valid)
    case False
    with assms Some pi show ?thesis by (simp add: gcCopyPage_def)
  next
    case True
    define bits where "bits = (if bRandomTweak e then bits0 else bit_set_all bits0)"
    from assms Some pi True obtain s1 nb s2 t2 wr2 where
      g: "getLastFreeBlock e s bits = Inr (s1, nb)"
      and f: "foldE (gcCopyUnit e src page nb lpns bits) [0..<bitsetSize e] (s1, t, wr) = Inr (s2, t2, wr2)"
      and r: "s' = s2\<lparr>validSuperPageCopies := validSuperPageCopies s2 + 1\<rparr>"
      by (auto simp: gcCopyPage_def Let_def bits_def elim!: bindE_InrE)
    have 1: "refreshFrame s s1" by (rule getLastFreeBlock_frame [OF g])
    have "refreshFrame (fst (s1, t, wr)) (fst (s2, t2, wr2))"
      by (rule foldE_rel [OF f, where R = refreshFrame])
         (auto dest: gcCopyUnit_frame simp: refreshFrame_def)
    with 1 r show ?thesis by (simp add: refreshFrame_def)
  qed
qed

lemma gcCollect_frame:
  assumes "gcCollect e v (s, t, rd, wr, er) = Inr (s', t', rd', wr', er')"
  shows "refreshFrame s s'"
proof -
  from assms obtain b where "blocks s v = Some b"
    by (auto simp: gcCollect_def split: option.splits)
  with assms have f: "foldE (gcCopyPage e v) [0..<pagesInBlock e] (s, t, rd, wr) = Inr (s', t', rd', wr')"
    by (auto simp: gcCollect_def elim!: bindE_InrE)
  have "refreshFrame (fst (s, t, rd, wr)) (fst (s', t', rd', wr'))"
      by (rule foldE_rel [OF f, where R = refreshFrame])
         (auto dest: gcCopyPage_frame simp: refreshFrame_def)
  then show ?thesis by simp
qed

lemma issueAll_frame: "issueAll e k b rs (s, fin) = (s', fin') \<Longrightarrow> refreshFrame s s'"
proof (induction rs arbitrary: s fin)
  case Nil
  then show ?case by simp
next
  case (Cons r rs)
  obtain s1 t1 where d: "doIO e (k r) s b = (s1, t1)" by (cases "doIO e (k r) s b")
  with Cons.prems have "issueAll e k b rs (s1, max fin t1) = (s', fin')" by simp
  from Cons.IH [OF this] doIO_eq [OF d] show ?case by (rule refreshFrame_trans [rotated])
qed

lemma gcErase_frame: "gcErase e b r (s, fin) = Inr (s', fin') \<Longrightarrow> refreshFrame s s'"
  by (auto simp: gcErase_def elim!: bindE_InrE dest: eraseInternal_frame)

lemma doGarbageCollection_frame:
  assumes "doGarbageCollection e s vs t = Inr (s', t')"
  shows "refreshFrame s s'"
proof (cases "vs = []")
  case True
  with assms show ?thesis by (simp add: doGarbageCollection_def)
next
  case False
  with assms obtain s1 t1 rd wr er where
    c: "foldE (gcCollect e) vs (s, t, [], [], []) = Inr (s1, t1, rd, wr, er)"
    by (auto simp: doGarbageCollection_def elim!: bindE_InrE)
  obtain s2 rf where r: "issueAll e PalRead t1 rd (s1, t) = (s2, rf)"
    by (cases "issueAll e PalRead t1 rd (s1, t)")
  obtain s3 wf where w: "issueAll e PalWrite rf wr (s2, t) = (s3, wf)"
    by (cases "issueAll e PalWrite rf wr (s2, t)")
  from assms False c r w obtain ef where
    x: "foldE (gcErase e rf) er (s3, t) = Inr (s', ef)"
    by (auto simp: doGarbageCollection_def elim!: bindE_InrE)
  have 1: "refreshFrame (fst (s, t, [] :: pal_request list, [] :: pal_request list, [] :: pal_request list)) (fst (s1, t1, rd, wr, er))"
      by (rule foldE_rel [OF c, where R = refreshFrame])
         (auto dest: gcCollect_frame simp: refreshFrame_def)
  have 2: "refreshFrame s1 s2" by (rule issueAll_frame [OF r])
  have 3: "refreshFrame s2 s3" by (rule issueAll_frame [OF w])
  have 4: "refreshFrame (fst (s3, t)) (fst (s', ef))"
      by (rule foldE_rel [OF x, where R = refreshFrame])
         (auto dest: gcErase_frame simp: refreshFrame_def)
  from 1 2 3 4 show ?thesis by (auto intro: refreshFrame_trans)
qed

lemma gcOnDemand_frame:
  assumes "gcOnDemand e s t = Inr s'"
  shows "refreshFrame s s'"
proof -
  from assms obtain list s2 t2 where
    "doGarbageCollection e (s\<lparr>bReclaimMore := False\<rparr>) list (t + applyLatency e SELECT_VICTIM_BLOCK) = Inr (s2, t2)"
    and "s' = s2\<lparr>gcCount := gcCount s2 + 1, reclaimedBlocks := reclaimedBlocks s2 + of_nat (length list)\<rparr>"
    by (auto simp: gcOnDemand_def selectVictimBlock_def elim!: bindE_InrE)
  with doGarbageCollection_frame [of e "s\<lparr>bReclaimMore := False\<rparr>"] show ?thesis
    by (auto simp: refreshFrame_def)
qed

lemma refreshCopyUnit_frame:
  "refreshCopyUnit e src page nb lpns bits ba idx (s, t, wr) = Inr (s', t', wr') \<Longrightarrow> refreshFrame s s'"
  by (auto simp: refreshCopyUnit_def refreshFrame_def doIO_def Let_def
      split: if_splits option.splits elim!: bindE_InrE)

lemma refreshCopyPage_frame:
  assumes "refreshCopyPage e src ba page (s, t, rd, wr) = Inr (s', t', rd', wr')"
  shows "refreshFrame s s'"
proof (cases "blocks s src")
  case None
  with assms show ?thesis by (simp add: refreshCopyPage_def)
next
  case (Some b)
  show ?thesis
  proof (cases "getValidPageCount b = 0")
    case True
    with assms Some show ?thesis by (simp add: refreshCopyPage_def)
  next
    case False
    with assms Some obtain lpns bits0 valid where
      pi: "block_getPageInfo b page = Inr (lpns, bits0, valid)"
      by (auto simp: refreshCopyPage_def elim!: bindE_InrE)
    define bits where "bits = (if bRandomTweak e then bits0 else bit_set_all bits0)"
    from assms Some pi False obtain s1 nb s2 t2 wr2 where
      g: "getLastFreeBlock e s bits = Inr (s1, nb)"
      and f: "foldE (refreshCopyUnit e src page nb lpns bits ba) [0..<bitsetSize e] (s1, t, wr) = Inr (s2, t2, wr2)"
      and r: "s' = s2\<lparr>refreshSuperPageCopies := refreshSuperPageCopies s2 + 1\<rparr>"
      by (auto simp: refreshCopyPage_def Let_def bits_def elim!: bindE_InrE)
    have 1: "refreshFrame s s1" by (rule getLastFreeBlock_frame [OF g])
    have "refreshFrame (fst (s1, t, wr)) (fst (s2, t2, wr2))"
      by (rule foldE_rel [OF f, where R = refreshFrame])
         (auto dest: refreshCopyUnit_frame simp: refreshFrame_def)
    with 1 r show ?thesis by (simp add: refreshFrame_def)
  qed
qed

lemma refreshPage_frame:
  assumes "refreshPage e s blk layer t = Inr (s', t')"
  shows "refreshFrame s s'"
proof -
  from assms obtain s1 where
    g: "(if belowGcThreshold e (nFreeBlocks s) then gcOnDemand e s t else Inr s) = Inr s1"
    and rest: "(case blocks s1 blk of
       None \<Rightarrow> Inr (s1, t)
     | Some _ \<Rightarrow>
         bindE (foldE (refreshCopyPage e blk t) (layerPages layer (pagesInBlock e)) (s1, t, [], []))
           (\<lambda>(s2, t2, rd, wr).
              let (s3, readFinishedAt) = issueAll e PalRead t2 rd (s2, t);
                  (s4, writeFinishedAt) = issueAll e PalWrite readFinishedAt wr (s3, t)
              in Inr (s4, max writeFinishedAt readFinishedAt
                          + applyLatency e DO_GARBAGE_COLLECTION))) = Inr (s', t')"
    unfolding refreshPage_def by (elim bindE_InrE) auto
  have 1: "refreshFrame s s1"
    using g by (auto split: if_splits dest: gcOnDemand_frame)
  show ?thesis
  proof (cases "blocks s1 blk")
    case None
    with rest 1 show ?thesis by simp
  next
    case (Some b)
    with rest obtain s2 t2 rd wr where
      f: "foldE (refreshCopyPage e blk t) (layerPages layer (pagesInBlock e)) (s1, t, [], []) = Inr (s2, t2, rd, wr)"
      by (auto elim!: bindE_InrE)
    obtain s3 rf where r: "issueAll e PalRead t2 rd (s2, t) = (s3, rf)"
      by (cases "issueAll e PalRead t2 rd (s2, t)")
    obtain s4 wf where w: "issueAll e PalWrite rf wr (s3, t) = (s4, wf)"
      by (cases "issueAll e PalWrite rf wr (s3, t)")
    from rest Some f r w have s': "s' = s4" by simp
    have 2: "refreshFrame (fst (s1, t, [] :: pal_request list, [] :: pal_request list)) (fst (s2, t2, rd, wr))"
      by (rule foldE_rel [OF f, where R = refreshFrame])
         (auto dest: refreshCopyPage_frame simp: refreshFrame_def)
    from 1 2 issueAll_frame [OF r] issueAll_frame [OF w] s' show ?thesis
      by (auto intro: refreshFrame_trans)
  qed
qed

lemma and_one_bit0: "(w AND 1 = 0) \<longleftrightarrow> \<not> bit w 0" for w :: "64 word"
  by (simp add: and_one_eq bit_0 even_iff_mod_2_eq_zero)

lemma bit0_unat: "bit w 0 \<longleftrightarrow> odd (unat w)" for w :: "64 word"
proof -
  have "bit (unat w) 0 \<longleftrightarrow> bit w 0" by (simp add: bit_unsigned_iff)
  then show ?thesis by (simp add: bit_0)
qed

lemma selectLevel_le: "t \<le> n - 1 \<Longrightarrow> selectLevel n t rc \<le> n - 1"
proof (induction n t rc rule: selectLevel.induct)
  case (1 n t rc)
  show ?case
  proof (cases "t < n - 1 \<and> rc AND 1 = 0")
    case True
    then have "selectLevel n t rc = selectLevel n (Suc t) (drop_bit 1 rc)"
      by (subst selectLevel.simps) simp
    with "1.IH" True show ?thesis by simp
  next
    case False
    then have "selectLevel n t rc = t" by (subst selectLevel.simps) auto
    with "1.prems" show ?thesis by simp
  qed
qed

lemma selectLevel_bits:
  "selectLevel n t rc = i \<longleftrightarrow>
     (t \<le> i \<and> i < n - 1 \<and> bit rc (i - t) \<and> (\<forall>k < i - t. \<not> bit rc k))
     \<or> (i = max t (n - 1) \<and> (\<forall>k < n - 1 - t. \<not> bit rc k))"
proof (induction n t rc arbitrary: i rule: selectLevel.induct)
  case (1 n t rc)
  show ?case
  proof (cases "t < n - 1")
    case False
    then have "selectLevel n t rc = t" by (subst selectLevel.simps) auto
    with False show ?thesis by auto
  next
    case lt: True
    show ?thesis
    proof (cases "rc AND 1 = 0")
      case False
      then have b0: "bit rc 0" by (simp add: and_one_bit0)
      from False lt have "selectLevel n t rc = t" by (subst selectLevel.simps) auto
      have z: "(\<forall>k < m. \<not> bit rc k) \<longleftrightarrow> m = 0" for m
        using b0 by auto
      from \<open>selectLevel n t rc = t\<close> lt b0 show ?thesis
        unfolding z by (auto simp: max_def)
    next
      case True
      then have b0: "\<not> bit rc 0" by (simp add: and_one_bit0)
      from True lt have eq: "selectLevel n t rc = selectLevel n (Suc t) (drop_bit 1 rc)"
        by (subst selectLevel.simps) simp
      have sh: "bit (drop_bit 1 rc) k = bit rc (Suc k)" for k
        by (simp add: bit_drop_bit_eq)
      have A: "(\<forall>k < m. \<not> bit rc (Suc k)) \<longleftrightarrow> (\<forall>k < Suc m. \<not> bit rc k)" for m
        using b0 by (metis less_Suc_eq_0_disj)
      show ?thesis
      proof (cases "Suc t \<le> i")
        case True
        then have d: "i - t = Suc (i - Suc t)" "n - 1 - t = Suc (n - 1 - Suc t)" using lt by auto
        show ?thesis
          unfolding eq "1.IH" [OF lt \<open>rc AND 1 = 0\<close>] sh A d(1) [symmetric]
          using True lt d(2) by (auto simp: max_def A)
      next
        case False
        show ?thesis
          unfolding eq "1.IH" [OF lt \<open>rc AND 1 = 0\<close>] sh
          using False lt b0 by (auto simp: max_def)
      qed
    qed
  qed
qed

lemma pow2_mod_aux:
  fixes q :: nat
  shows "(2 * q) mod 2 ^ Suc (Suc d) = 2 ^ Suc d \<longleftrightarrow> q mod 2 ^ Suc d = 2 ^ d"
proof -
  have "(2 * q) mod (2 * 2 ^ Suc d) = 2 * (q mod 2 ^ Suc d)"
    by (rule mult_mod_right [symmetric])
  then show ?thesis by auto
qed

lemma selectLevel_cadence:
  "selectLevel n t rc = i \<longleftrightarrow>
     (t \<le> i \<and> i < n - 1 \<and> unat rc mod 2 ^ Suc (i - t) = 2 ^ (i - t))
     \<or> (i = max t (n - 1) \<and> 2 ^ (n - 1 - t) dvd unat rc)"
proof (induction n t rc arbitrary: i rule: selectLevel.induct)
  case (1 n t rc)
  show ?case
  proof (cases "t < n - 1")
    case False
    then have "selectLevel n t rc = t" by (subst selectLevel.simps) auto
    with False show ?thesis by auto
  next
    case lt: True
    then obtain d where d: "n - 1 - t = Suc d" by (cases "n - 1 - t") auto
    show ?thesis
    proof (cases "rc AND 1 = 0")
      case False
      then have odd: "odd (unat rc)" by (simp add: and_one_bit0 bit0_unat)
      from False lt have r: "selectLevel n t rc = t" by (subst selectLevel.simps) auto
      have m1: "unat rc mod 2 = 1" using odd by (simp add: odd_iff_mod_2_eq_one)
      have no: "unat rc mod 2 ^ Suc (Suc k) \<noteq> 2 ^ Suc k" for k
      proof
        assume "unat rc mod 2 ^ Suc (Suc k) = 2 ^ Suc k"
        then have "even (unat rc mod 2 ^ Suc (Suc k))" by simp
        then have "even (unat rc)"
          by (meson dvd_mod_imp_dvd dvd_refl even_power zero_less_Suc)
        with odd show False by simp
      qed
      have nd: "\<not> 2 ^ Suc d dvd unat rc" using odd by auto
      show ?thesis
      proof (cases "i = t")
        case True
        with r lt m1 show ?thesis by simp
      next
        case False
        have "\<not> (t \<le> i \<and> i < n - 1 \<and> unat rc mod 2 ^ Suc (i - t) = 2 ^ (i - t))"
        proof
          assume a: "t \<le> i \<and> i < n - 1 \<and> unat rc mod 2 ^ Suc (i - t) = 2 ^ (i - t)"
          with False obtain k where "i - t = Suc k" by (cases "i - t") auto
          with a no [of k] show False by simp
        qed
        with r False nd d show ?thesis by auto
      qed
    next
      case True
      then have ev: "even (unat rc)" by (simp add: and_one_bit0 bit0_unat)
      then obtain q where q: "unat rc = 2 * q" by (elim evenE)
      have u: "unat (drop_bit 1 rc) = q"
        by (simp add: drop_bit_eq_div unat_div q)
      from True lt have eq: "selectLevel n t rc = selectLevel n (Suc t) (drop_bit 1 rc)"
        by (subst selectLevel.simps) simp
      have dv: "2 ^ Suc d dvd 2 * q \<longleftrightarrow> 2 ^ d dvd q" by simp
      have d': "n - 1 - Suc t = d" using d by simp
      show ?thesis
      proof (cases "Suc t \<le> i")
        case True
        then obtain k where k: "i - t = Suc k" "i - Suc t = k" by (cases "i - t") auto
        show ?thesis
          unfolding eq "1.IH" [OF lt \<open>rc AND 1 = 0\<close>] u q k d d' pow2_mod_aux dv
          using True lt by (auto simp: max_def)
      next
        case False
        have "\<not> 2 * q mod 2 = 1" by simp
        with False lt show ?thesis
          unfolding eq "1.IH" [OF lt \<open>rc AND 1 = 0\<close>] u q d d' dv
          by (auto simp: max_def)
      qed
    qed
  qed
qed

lemma sweepLayer_step:
  assumes "sweepLayer e L ij (s, t, c) = Inr (s', t', c')" and "L < length (bloomFilters s)"
  shows "length (bloomFilters s') = length (bloomFilters s)
       \<and> refreshCallCount s' = refreshCallCount s
       \<and> (\<forall>k < length (bloomFilters s).
            bloomProbes (bloomFilters s' ! k)
              = bloomProbes (bloomFilters s ! k) + (if k = L then 1 else 0))"
proof -
  obtain i j where ij: "ij = (i, j)" by (cases ij)
  show ?thesis
  proof (cases "bloom_contains e L (bloomFilters s ! L) (refreshKey i j)")
    case False
    with assms ij have "s' = s\<lparr>bloomFilters :=
        (bloomFilters s)[L := (bloomFilters s ! L)\<lparr>true_negative := Suc (true_negative (bloomFilters s ! L))\<rparr>]\<rparr>"
      by (simp add: sweepLayer_def Let_def)
    with assms(2) show ?thesis
      by (auto simp: bloomProbes_def nth_list_update)
  next
    case True
    from assms ij True obtain f' t1 where
      r: "refreshPage e (s\<lparr>bloomFilters := (bloomFilters s)[L := f']\<rparr>) i j t = Inr (s', t1)"
      and f': "bloomProbes f' = Suc (bloomProbes (bloomFilters s ! L))"
      by (auto simp: sweepLayer_def Let_def bloomProbes_def elim!: bindE_InrE split: if_splits)
    from refreshPage_frame [OF r] have
      "bloomFilters s' = (bloomFilters s)[L := f']" "refreshCallCount s' = refreshCallCount s"
      by (simp_all add: refreshFrame_def)
    with f' show ?thesis using assms(2)
      by (auto simp: nth_list_update)
  qed
qed

lemma sweep_fold:
  assumes "foldE (sweepLayer e L) xs (s, t, c) = Inr (s', t', c')" and "L < length (bloomFilters s)"
  shows "length (bloomFilters s') = length (bloomFilters s)
       \<and> refreshCallCount s' = refreshCallCount s
       \<and> (\<forall>k < length (bloomFilters s).
            bloomProbes (bloomFilters s' ! k)
              = bloomProbes (bloomFilters s ! k) + (if k = L then length xs else 0))"
  using assms
proof (induction xs arbitrary: s t c)
  case Nil
  then show ?case by simp
next
  case (Cons x xs)
  from Cons.prems(1) obtain s1 t1 c1 where
    1: "sweepLayer e L x (s, t, c) = Inr (s1, t1, c1)"
    and 2: "foldE (sweepLayer e L) xs (s1, t1, c1) = Inr (s', t', c')"
    by (auto elim!: bindE_InrE)
  note a = sweepLayer_step [OF 1 Cons.prems(2)]
  from a Cons.prems(2) have L: "L < length (bloomFilters s1)" by simp
  note b = Cons.IH [OF 2 L]
  from a b show ?case by auto
qed

lemma initialize_count:
  "initialize e s0 tooHigh fill = Inr s \<Longrightarrow> refreshCallCount s = 1"
  by (auto simp: initialize_def elim!: bindE_InrE split: if_splits)

text \<open>
  Claim C2 (amended). When \<^verbatim>\<open>refresh_event\<close> returns, the call count has grown by exactly
  one, and one Bloom level has been swept (its filter has been asked about every (block, layer),
  the others about none): the level \<open>selectLevel\<close> computes from the count before the increment.
  That level is the position of the lowest set bit of the count, capped at the highest level.
  Hence a level \<open>i\<close> below the highest one is swept exactly when the count is an odd
  multiple of \<open>2 ^ i\<close> (every \<open>2 ^ (i + 1)\<close> firings), and the highest level \<open>n - 1\<close> exactly
  when \<open>2 ^ (n - 1)\<close> divides the count. \<^verbatim>\<open>initialize\<close> leaves the count 1: a firing on
  the state it returns sweeps level 0 and leaves the count 2.
\<close>

theorem refresh_event_level_and_count:
  assumes "refresh_event e s t = Inr s'"
  shows "refreshCallCount s' = refreshCallCount s + 1
    \<and> length (bloomFilters s') = length (bloomFilters s)
    \<and> (\<forall>k < length (bloomFilters s).
          bloomProbes (bloomFilters s' ! k)
            = bloomProbes (bloomFilters s ! k)
              + (if k = selectLevel (length (bloomFilters s)) 0 (refreshCallCount s)
                 then totalPhysicalBlocks e * num_layer else 0))
    \<and> (\<forall>i. selectLevel (length (bloomFilters s)) 0 (refreshCallCount s) = i \<longleftrightarrow>
          (i < length (bloomFilters s) - 1 \<and> bit (refreshCallCount s) i
             \<and> (\<forall>k < i. \<not> bit (refreshCallCount s) k))
          \<or> (i = length (bloomFilters s) - 1
             \<and> (\<forall>k < length (bloomFilters s) - 1. \<not> bit (refreshCallCount s) k)))
    \<and> (\<forall>i. selectLevel (length (bloomFilters s)) 0 (refreshCallCount s) = i \<longleftrightarrow>
          (i < length (bloomFilters s) - 1 \<and> unat (refreshCallCount s) mod 2 ^ Suc i = 2 ^ i)
          \<or> (i = length (bloomFilters s) - 1
             \<and> 2 ^ (length (bloomFilters s) - 1) dvd unat (refreshCallCount s)))
    \<and> (refreshCallCount s = 1 \<longrightarrow>
          selectLevel (length (bloomFilters s)) 0 (refreshCallCount s) = 0 \<and> refreshCallCount s' = 2)
    \<and> (\<forall>s0 tooHigh fill. initialize e s0 tooHigh fill = Inr s \<longrightarrow>
          refreshCallCount s = 1
          \<and> selectLevel (length (bloomFilters s)) 0 (refreshCallCount s) = 0
          \<and> refreshCallCount s' = 2)"
proof -
  define N where "N = length (bloomFilters s)"
  define L where "L = selectLevel N 0 (refreshCallCount s)"
  from assms have ne: "bloomFilters s \<noteq> []"
    by (auto simp: refresh_event_def split: if_splits)
  then have N: "0 < N" by (simp add: N_def)
  have LN: "L < N" using selectLevel_le [of 0 N "refreshCallCount s"] N by (simp add: L_def)
  from assms ne obtain s1 t1 c1 where
    f: "foldE (sweepLayer e L) (List.product [0..<totalPhysicalBlocks e] [0..<num_layer]) (s, t, 0) = Inr (s1, t1, c1)"
    and s': "s' = s1\<lparr>refreshCallCount := refreshCallCount s1 + 1,
                       layerCheckCount := layerCheckCount s1 + ucast c1\<rparr>"
    by (auto simp: refresh_event_def Let_def L_def N_def elim!: bindE_InrE)
  note sw = sweep_fold [OF f LN [unfolded N_def]]
  have A: "refreshCallCount s' = refreshCallCount s + 1" using sw s' by simp
  have B: "length (bloomFilters s') = N" using sw s' by (simp add: N_def)
  have C: "\<forall>k < N. bloomProbes (bloomFilters s' ! k)
            = bloomProbes (bloomFilters s ! k) + (if k = L then totalPhysicalBlocks e * num_layer else 0)"
    using sw s' by (simp add: N_def)
  have D: "\<forall>i. L = i \<longleftrightarrow>
          (i < N - 1 \<and> bit (refreshCallCount s) i \<and> (\<forall>k < i. \<not> bit (refreshCallCount s) k))
          \<or> (i = N - 1 \<and> (\<forall>k < N - 1. \<not> bit (refreshCallCount s) k))"
    unfolding L_def selectLevel_bits by simp
  have E: "\<forall>i. L = i \<longleftrightarrow>
          (i < N - 1 \<and> unat (refreshCallCount s) mod 2 ^ Suc i = 2 ^ i)
          \<or> (i = N - 1 \<and> 2 ^ (N - 1) dvd unat (refreshCallCount s))"
    unfolding L_def selectLevel_cadence by simp
  have F: "refreshCallCount s = 1 \<longrightarrow> L = 0 \<and> refreshCallCount s' = 2"
  proof
    assume 1: "refreshCallCount s = 1"
    have "L = 0" unfolding L_def 1 by (subst selectLevel.simps) simp
    with A 1 show "L = 0 \<and> refreshCallCount s' = 2" by simp
  qed
  have G: "\<forall>s0 tooHigh fill. initialize e s0 tooHigh fill = Inr s \<longrightarrow>
          refreshCallCount s = 1 \<and> L = 0 \<and> refreshCallCount s' = 2"
    using F by (auto dest: initialize_count)
  show ?thesis using A B C D E F G unfolding L_def N_def by (intro conjI)
qed

lemma sweep_no_hit:
  assumes "L < length (bloomFilters s)" and "inserted (bloomFilters s ! L) = []"
    and "\<forall>k. \<not> bloomFalsePositive e L [] k"
  shows "foldE (sweepLayer e L) xs (s, t, c)
         = Inr (s\<lparr>bloomFilters := (bloomFilters s)
                    [L := (bloomFilters s ! L)
                            \<lparr>true_negative := true_negative (bloomFilters s ! L) + length xs\<rparr>]\<rparr>, t, c)"
  using assms
proof (induction xs arbitrary: s)
  case Nil
  then show ?case by simp
next
  case (Cons x xs)
  obtain i j where x: "x = (i, j)" by (cases x)
  let ?f = "bloomFilters s ! L"
  let ?s1 = "s\<lparr>bloomFilters := (bloomFilters s)[L := ?f\<lparr>true_negative := Suc (true_negative ?f)\<rparr>]\<rparr>"
  have 1: "sweepLayer e L x (s, t, c) = Inr (?s1, t, c)"
    using Cons.prems by (simp add: sweepLayer_def x bloom_contains_def Let_def)
  have 2: "L < length (bloomFilters ?s1)" "inserted (bloomFilters ?s1 ! L) = []"
    using Cons.prems by simp_all
  show ?case
    using Cons.IH [OF 2 Cons.prems(3)] Cons.prems(1) by (simp add: 1)
qed

lemma exBoot_event:
  "refresh_event exEnv exBoot t
     = Inr (exBoot\<lparr>bloomFilters := [emptyBloom\<lparr>true_negative := 192\<rparr>, emptyBloom],
                    refreshCallCount := 2\<rparr>)"
proof -
  have b: "bloomFilters exBoot = [emptyBloom, emptyBloom]" "refreshCallCount exBoot = 1"
    "layerCheckCount exBoot = 0"
    by (simp_all add: exBoot_def exPool_def)
  have L: "selectLevel (length (bloomFilters exBoot)) 0 (refreshCallCount exBoot) = 0"
    unfolding b by (subst selectLevel.simps) simp
  have f: "\<forall>k. \<not> bloomFalsePositive exEnv 0 [] k" by (simp add: exEnv_def)
  have i: "inserted (bloomFilters exBoot ! 0) = []" "0 < length (bloomFilters exBoot)"
    by (simp_all add: b emptyBloom_def)
  have n: "length (List.product [0..<totalPhysicalBlocks exEnv] [0..<num_layer]) = 192"
    by (simp add: exEnv_def num_layer_def)
  have ne: "bloomFilters exBoot \<noteq> []" by (simp add: b)
  show ?thesis
    unfolding refresh_event_def Let_def L sweep_no_hit [OF i(2) i(1) f] n
    using ne by (simp add: b emptyBloom_def)
qed

lemma exBoot_event2:
  "refresh_event exEnv (exBoot\<lparr>bloomFilters := [emptyBloom\<lparr>true_negative := 192\<rparr>, emptyBloom],
                    refreshCallCount := 2\<rparr>) t
     = Inr (exBoot\<lparr>bloomFilters := [emptyBloom\<lparr>true_negative := 192\<rparr>,
                                      emptyBloom\<lparr>true_negative := 192\<rparr>],
                    refreshCallCount := 3\<rparr>)"
proof -
  let ?s = "exBoot\<lparr>bloomFilters := [emptyBloom\<lparr>true_negative := 192\<rparr>, emptyBloom],
                    refreshCallCount := 2\<rparr>"
  have b: "bloomFilters ?s = [emptyBloom\<lparr>true_negative := 192\<rparr>, emptyBloom]" "refreshCallCount ?s = 2"
    by simp_all
  have L: "selectLevel (length (bloomFilters ?s)) 0 (refreshCallCount ?s) = 1"
    unfolding b by (subst selectLevel.simps, simp)+
  have f: "\<forall>k. \<not> bloomFalsePositive exEnv 1 [] k" by (simp add: exEnv_def)
  have i: "inserted (bloomFilters ?s ! 1) = []" "1 < length (bloomFilters ?s)"
    by (simp_all add: emptyBloom_def)
  have n: "length (List.product [0..<totalPhysicalBlocks exEnv] [0..<num_layer]) = 192"
    by (simp add: exEnv_def num_layer_def)
  have ne: "bloomFilters ?s \<noteq> []" by simp
  show ?thesis
    unfolding refresh_event_def Let_def L sweep_no_hit [OF i(2) i(1) f] n
    using ne by (simp add: emptyBloom_def)
qed

text \<open>
  Against claim C2 as stated (level \<open>i\<close> swept every \<open>2 ^ i\<close> firings, so level 0 at every
  firing): two firings in a row from the count 1. The first asks filter 0 about the 192
  (block, layer) pairs; the second asks filter 1 only, filter 0 is not swept.
\<close>

theorem refresh_cadence_counterexample:
  "(case refresh_event exEnv exBoot 0 of
      Inl _ \<Rightarrow> False
    | Inr s1 \<Rightarrow>
        (case refresh_event exEnv s1 0 of
           Inl _ \<Rightarrow> False
         | Inr s2 \<Rightarrow>
             refreshCallCount exBoot = 1 \<and> refreshCallCount s1 = 2 \<and> refreshCallCount s2 = 3
             \<and> map bloomProbes (bloomFilters exBoot) = [0, 0]
             \<and> map bloomProbes (bloomFilters s1) = [192, 0]
             \<and> map bloomProbes (bloomFilters s2) = [192, 192]))"
  apply (simp only: exBoot_event sum.case)
  apply (simp only: exBoot_event2 sum.case)
  apply (simp add: bloomProbes_def emptyBloom_def exBoot_def exPool_def)
  done

lemma exEnv_boot:
  "PageMapping exEnv = Inr ((exPool [newBlock 1 2 1 0, newBlock 2 2 1 0] [0 \<mapsto> newBlock 0 2 1 0])
                              \<lparr>refreshCallCount := 0\<rparr>)"
  "initialize exEnv ((exPool [newBlock 1 2 1 0, newBlock 2 2 1 0] [0 \<mapsto> newBlock 0 2 1 0])
                              \<lparr>refreshCallCount := 0\<rparr>) False [] = Inr exBoot"
  by (simp_all add: PageMapping_def initialize_def getFreeBlock_def exEnv_def exPool_def exBoot_def
      newBlock_def Let_def upt_conv_Cons numeral_2_eq_2)

theorem refresh_event_level_and_count_witness:
  "\<exists>s0 s'. PageMapping exEnv = Inr s0 \<and> initialize exEnv s0 False [] = Inr exBoot
      \<and> refresh_event exEnv exBoot 0 = Inr s'
      \<and> refreshCallCount exBoot = 1 \<and> refreshCallCount s' = 2
      \<and> selectLevel (length (bloomFilters exBoot)) 0 (refreshCallCount exBoot) = 0
      \<and> bit (refreshCallCount exBoot) 0
      \<and> unat (refreshCallCount exBoot) mod 2 ^ Suc 0 = 2 ^ 0
      \<and> bloomProbes (bloomFilters s' ! 0) = bloomProbes (bloomFilters exBoot ! 0) + 192
      \<and> bloomProbes (bloomFilters s' ! 1) = bloomProbes (bloomFilters exBoot ! 1)"
proof -
  have b: "bloomFilters exBoot = [emptyBloom, emptyBloom]"
    by (simp_all add: exBoot_def exPool_def)
  have t: "totalPhysicalBlocks exEnv * num_layer = 192" by (simp add: exEnv_def num_layer_def)
  note th = refresh_event_level_and_count [OF exBoot_event [of 0]]
  from th exEnv_boot(2) have I: "refreshCallCount exBoot = 1
      \<and> selectLevel (length (bloomFilters exBoot)) 0 (refreshCallCount exBoot) = 0
      \<and> refreshCallCount (exBoot\<lparr>bloomFilters := [emptyBloom\<lparr>true_negative := 192\<rparr>, emptyBloom],
                    refreshCallCount := 2\<rparr>) = 2"
    by blast
  then have L: "selectLevel (length (bloomFilters exBoot)) 0 (refreshCallCount exBoot) = 0"
    and c1: "refreshCallCount exBoot = 1"
    by blast+
  from th have P: "\<forall>k < length (bloomFilters exBoot).
          bloomProbes (bloomFilters (exBoot\<lparr>bloomFilters := [emptyBloom\<lparr>true_negative := 192\<rparr>, emptyBloom],
                    refreshCallCount := 2\<rparr>) ! k)
            = bloomProbes (bloomFilters exBoot ! k)
              + (if k = selectLevel (length (bloomFilters exBoot)) 0 (refreshCallCount exBoot)
                 then totalPhysicalBlocks exEnv * num_layer else 0)"
    by blast
  have k: "0 < length (bloomFilters exBoot)" "1 < length (bloomFilters exBoot)" by (simp_all add: b)
  from P [rule_format, OF k(1)] have P0: "bloomProbes (bloomFilters (exBoot\<lparr>bloomFilters := [emptyBloom\<lparr>true_negative := 192\<rparr>, emptyBloom],
                    refreshCallCount := 2\<rparr>) ! 0) = bloomProbes (bloomFilters exBoot ! 0) + 192"
    unfolding L t by (simp add: b)
  from P [rule_format, OF k(2)] have P1: "bloomProbes (bloomFilters (exBoot\<lparr>bloomFilters := [emptyBloom\<lparr>true_negative := 192\<rparr>, emptyBloom],
                    refreshCallCount := 2\<rparr>) ! 1) = bloomProbes (bloomFilters exBoot ! 1)"
    unfolding L t by (simp add: b)
  from th have B: "\<forall>i. selectLevel (length (bloomFilters exBoot)) 0 (refreshCallCount exBoot) = i \<longleftrightarrow>
          (i < length (bloomFilters exBoot) - 1 \<and> bit (refreshCallCount exBoot) i
             \<and> (\<forall>k < i. \<not> bit (refreshCallCount exBoot) k))
          \<or> (i = length (bloomFilters exBoot) - 1
             \<and> (\<forall>k < length (bloomFilters exBoot) - 1. \<not> bit (refreshCallCount exBoot) k))"
    by blast
  from B L have bit0: "bit (refreshCallCount exBoot) 0" by (auto simp: b)
  from th have C: "\<forall>i. selectLevel (length (bloomFilters exBoot)) 0 (refreshCallCount exBoot) = i \<longleftrightarrow>
          (i < length (bloomFilters exBoot) - 1 \<and> unat (refreshCallCount exBoot) mod 2 ^ Suc i = 2 ^ i)
          \<or> (i = length (bloomFilters exBoot) - 1
             \<and> 2 ^ (length (bloomFilters exBoot) - 1) dvd unat (refreshCallCount exBoot))"
    by blast
  from C L have m: "unat (refreshCallCount exBoot) mod 2 ^ Suc 0 = 2 ^ 0" by (auto simp: b)
  show ?thesis
    using exEnv_boot exBoot_event [of 0] c1 L bit0 m P0 P1 by simp
qed

lemma setRefreshPeriod_inserted:
  assumes "setRefreshPeriod e s b l rtc = Inr s'"
  shows "length (bloomFilters s') = length (bloomFilters s)
       \<and> (\<forall>k < length (bloomFilters s).
            inserted (bloomFilters s' ! k)
              = inserted (bloomFilters s ! k) @ (if k = rtc then [refreshKey b l] else []))"
  using assms
  by (auto simp: setRefreshPeriod_def Let_def bloom_insert_def nth_list_update
      split: if_splits option.splits)

lemma setRefreshPeriod_total:
  "rtc < length (bloomFilters s) \<Longrightarrow> \<exists>s'. setRefreshPeriod e s b l rtc = Inr s'"
  by (auto simp: setRefreshPeriod_def Let_def split: option.splits)

lemma ucast_pow2_32_64: "k < 32 \<Longrightarrow> (ucast (2 ^ k :: 32 word) :: 64 word) = 2 ^ k"
  by (rule bit_word_eqI) (auto simp: bit_simps)

lemma drop_bit_pow2_32: "Suc k < 32 \<Longrightarrow> drop_bit 1 (2 ^ Suc k :: 32 word) = 2 ^ k"
  by (rule bit_word_eqI) (auto simp: bit_simps simp del: power_Suc)

lemma registerLoop_inserted:
  assumes "registerLoop e b l ec k j s = Inr s'"
    and "k \<le> length (bloomFilters s)" and "length (bloomFilters s) \<le> 32"
    and "\<forall>k0. k = Suc k0 \<longrightarrow> j = 2 ^ k0"
  shows "length (bloomFilters s') = length (bloomFilters s)
       \<and> (\<forall>L < length (bloomFilters s).
            inserted (bloomFilters s' ! L)
              = inserted (bloomFilters s ! L)
                @ (if L < k \<and> (Suc L = length (bloomFilters s)
                       \<or> getRBER e (refresh_period e * 1000000000 * 2 ^ L) ec l > eccCapability)
                   then [refreshKey b l] else []))"
  using assms
proof (induction k arbitrary: j s)
  case 0
  then show ?case by simp
next
  case (Suc k)
  from Suc.prems have j: "j = 2 ^ k" and k32: "k < 32" by auto
  have rt: "retentionTime e j = refresh_period e * 1000000000 * 2 ^ k"
    by (simp add: retentionTime_def j ucast_pow2_32_64 [OF k32])
  have j': "\<forall>k0. k = Suc k0 \<longrightarrow> drop_bit 1 j = 2 ^ k0"
  proof (intro allI impI)
    fix k0 assume k0: "k = Suc k0"
    then have "Suc k0 < 32" using k32 by simp
    from drop_bit_pow2_32 [OF this] show "drop_bit 1 j = 2 ^ k0"
      unfolding j k0 .
  qed
  define ins where "ins \<longleftrightarrow> Suc k = length (bloomFilters s)
      \<or> getRBER e (refresh_period e * 1000000000 * 2 ^ k) ec l > eccCapability"
  show ?case
  proof (cases ins)
    case True
    with Suc.prems(1) obtain s1 where
      1: "setRefreshPeriod e s b l k = Inr s1"
      and 2: "registerLoop e b l ec k (drop_bit 1 j) s1 = Inr s'"
      by (auto simp: ins_def rt elim!: bindE_InrE split: if_splits)
    note a = setRefreshPeriod_inserted [OF 1]
    from a Suc.prems have p: "k \<le> length (bloomFilters s1)" "length (bloomFilters s1) \<le> 32"
      by auto
    note c = Suc.IH [OF 2 p j']
    show ?thesis
    proof (intro conjI allI impI)
      show "length (bloomFilters s') = length (bloomFilters s)" using a c by simp
    next
      fix L assume L: "L < length (bloomFilters s)"
      with a c have "inserted (bloomFilters s' ! L)
          = (inserted (bloomFilters s ! L) @ (if L = k then [refreshKey b l] else []))
            @ (if L < k \<and> (Suc L = length (bloomFilters s)
                       \<or> getRBER e (refresh_period e * 1000000000 * 2 ^ L) ec l > eccCapability)
                   then [refreshKey b l] else [])"
        by simp
      with True show "inserted (bloomFilters s' ! L)
              = inserted (bloomFilters s ! L)
                @ (if L < Suc k \<and> (Suc L = length (bloomFilters s)
                       \<or> getRBER e (refresh_period e * 1000000000 * 2 ^ L) ec l > eccCapability)
                   then [refreshKey b l] else [])"
        by (auto simp: ins_def less_Suc_eq)
    qed
  next
    case False
    with Suc.prems(1) have 2: "registerLoop e b l ec k (drop_bit 1 j) s = Inr s'"
      by (auto simp: ins_def rt split: if_splits)
    from Suc.prems have p: "k \<le> length (bloomFilters s)" by simp
    note c = Suc.IH [OF 2 p Suc.prems(3) j']
    show ?thesis
    proof (intro conjI allI impI)
      show "length (bloomFilters s') = length (bloomFilters s)" using c by simp
    next
      fix L assume L: "L < length (bloomFilters s)"
      with c False show "inserted (bloomFilters s' ! L)
              = inserted (bloomFilters s ! L)
                @ (if L < Suc k \<and> (Suc L = length (bloomFilters s)
                       \<or> getRBER e (refresh_period e * 1000000000 * 2 ^ L) ec l > eccCapability)
                   then [refreshKey b l] else [])"
        by (auto simp: ins_def less_Suc_eq)
    qed
  qed
qed

lemma registerLoop_total:
  "k \<le> length (bloomFilters s) \<Longrightarrow> \<exists>s'. registerLoop e b l ec k j s = Inr s'"
proof (induction k arbitrary: j s)
  case 0
  then show ?case by simp
next
  case (Suc k)
  then have "k < length (bloomFilters s)" by simp
  from setRefreshPeriod_total [OF this] obtain s1 where
    1: "setRefreshPeriod e s b l k = Inr s1" by blast
  from setRefreshPeriod_inserted [OF 1] Suc.prems have "k \<le> length (bloomFilters s1)" by simp
  from Suc.IH [OF this] Suc.IH [of s] Suc.prems show ?case
    by (auto simp: 1)
qed

lemma registerRefresh_inserted:
  assumes "registerRefresh e b l ec s = Inr s'"
  shows "0 < length (bloomFilters s) \<and> length (bloomFilters s) \<le> 32
       \<and> length (bloomFilters s') = length (bloomFilters s)
       \<and> (\<forall>L < length (bloomFilters s).
            inserted (bloomFilters s' ! L)
              = inserted (bloomFilters s ! L)
                @ (if L = length (bloomFilters s) - 1
                       \<or> getRBER e (refresh_period e * 1000000000 * 2 ^ L) ec l > eccCapability
                   then [refreshKey b l] else []))"
proof -
  let ?n = "length (bloomFilters s)"
  from assms have n: "0 < ?n" "?n \<le> 32"
    and r: "registerLoop e b l ec ?n (push_bit (?n - 1) 1) s = Inr s'"
    by (auto simp: registerRefresh_def Let_def split: if_splits)
  have j: "\<forall>k0. ?n = Suc k0 \<longrightarrow> (push_bit (?n - 1) 1 :: 32 word) = 2 ^ k0"
    by (auto simp: push_bit_of_1)
  note a = registerLoop_inserted [OF r order_refl n(2) j]
  have c: "Suc L = ?n \<longleftrightarrow> L = ?n - 1" for L using n by auto
  from a n show ?thesis by (auto simp: c)
qed

lemma registerRefresh_total:
  "0 < length (bloomFilters s) \<Longrightarrow> length (bloomFilters s) \<le> 32
     \<Longrightarrow> \<exists>s'. registerRefresh e b l ec s = Inr s'"
  using registerLoop_total [of "length (bloomFilters s)" s]
  by (auto simp: registerRefresh_def Let_def)

lemma block_getNextWritePageIndex_Inr:
  "block_getNextWritePageIndex b idx = Inr (p, b') \<Longrightarrow>
     p = nextWritePageIndex b ! idx \<and> eraseCount b' = eraseCount b \<and> blockIdx b' = blockIdx b"
  by (auto simp: block_getNextWritePageIndex_def split: if_splits)

lemma block_write_Inr:
  "block_write b p l idx t = Inr b' \<Longrightarrow> eraseCount b' = eraseCount b \<and> blockIdx b' = blockIdx b"
  by (auto simp: block_write_def split: if_splits)

lemma bloomFilters_doIO [simp]: "bloomFilters (fst (doIO e c s t)) = bloomFilters s"
  by (simp add: doIO_def Let_def)

text \<open>
  Claim C1 (amended). In \<^verbatim>\<open>writeInternal\<close> with \<^verbatim>\<open>sendToPAL\<close>, every written I/O unit
  registers the key of (block, layer of the page it got) in the Bloom levels from the highest
  to the lowest: the key is inserted into the highest level always, and into a lower level
  \<open>L\<close> exactly when the predicted RBER for the period of that same level,
  \<open>rber(base_period * 2 ^ L, erase_count, layer)\<close>, exceeds the ECC capability 0.01. (In
  the loop, \<open>i\<close> runs from the number of filters down to 1 with \<open>j = 2 ^ (i - 1)\<close>, and
  the level inserted is \<open>i - 1\<close>: the exponent is the level, not the level plus one.)
  There are 1 to 32 filters when the registration returns.
\<close>

theorem writeUnit_registers_refresh:
  assumes "writeUnit e req blk t rbw True idx (s, fin) = Inr (s', fin')"
    and "bit_test (ioFlag req) idx \<or> \<not> bRandomTweak e"
    and "blocks s blk = Some b"
  shows "0 < length (bloomFilters s) \<and> length (bloomFilters s) \<le> 32
       \<and> length (bloomFilters s') = length (bloomFilters s)
       \<and> (\<forall>L < length (bloomFilters s).
            inserted (bloomFilters s' ! L)
              = inserted (bloomFilters s ! L)
                @ (if L = length (bloomFilters s) - 1
                       \<or> getRBER e (refresh_period e * 1000000000 * 2 ^ L) (eraseCount b)
                                (nextWritePageIndex b ! idx mod 64) > eccCapability
                   then [refreshKey blk (nextWritePageIndex b ! idx mod 64)] else []))"
proof -
  from assms obtain page b1 ml b2 where
    g: "block_getNextWritePageIndex b idx = Inr (page, b1)"
    and w: "block_write b1 page (lpn req) idx t = Inr b2"
    and r: "registerRefresh e blk (page mod 64) (eraseCount b2)
              (fst (writeUnitIO e req blk (ml ! idx) page idx rbw True
                      (s\<lparr>blocks := (blocks s)(blk \<mapsto> b2)\<rparr>) t)) = Inr s'"
    by (auto simp: writeUnit_def Let_def split_beta elim!: bindE_InrE
        split: option.splits if_splits)
  define s4 where "s4 = fst (writeUnitIO e req blk (ml ! idx) page idx rbw True
                      (s\<lparr>blocks := (blocks s)(blk \<mapsto> b2)\<rparr>) t)"
  have bf: "bloomFilters s4 = bloomFilters s"
    by (simp add: s4_def writeUnitIO_def Let_def split_beta)
  note r = r [folded s4_def]
  from block_getNextWritePageIndex_Inr [OF g] block_write_Inr [OF w]
  have "page = nextWritePageIndex b ! idx" "eraseCount b2 = eraseCount b" by simp_all
  with registerRefresh_inserted [OF r] bf show ?thesis by simp
qed

lemmas ftl_eval =
  getFreeBlock_def getLastFreeBlock_def newBlock_def
  PageMapping_write_def writeInternal_def writeUnit_def writeUnitIO_def registerRefresh_def
  setRefreshPeriod_def retentionTime_def eccCapability_def refreshKey_def bloom_insert_def
  emptyBloom_def doIO_def bitsetSize_def mappingBytes_def
  bit_test_def bit_count_def bit_all_def bit_any_def bit_and_def bit_or_def bit_set_all_def
  bit_only_def bit_flip_def blockFull_def block_write_def block_getNextWritePageIndex_def
  block_invalidate_def block_read_def block_getPageInfo_def block_erase_def getValidPageCount_def
  in_bits_def put_bits_def Let_def

text \<open>
  Against claim C1 as stated (level \<open>i - 1\<close> is inserted exactly when the RBER of the period
  \<open>base * 2 ^ i\<close> exceeds the threshold): with two filters and an error model that exceeds the
  threshold from two base periods on, the RBER of \<open>base * 2 ^ 1\<close> exceeds it, yet a write
  inserts nothing into level 0, because the RBER of \<open>base * 2 ^ 0\<close> does not.
\<close>

theorem refresh_registration_counterexample:
  "(case PageMapping_write exEnvR exBoot \<lparr>lpn = 5, ioFlag = [True]\<rparr> 100 of
      Inl _ \<Rightarrow> False
    | Inr (s', _) \<Rightarrow> map inserted (bloomFilters s') = [[], [refreshKey 0 0]])
   \<and> getRBER exEnvR (refresh_period exEnvR * 1000000000 * 2 ^ 1) 0 0 > eccCapability
   \<and> \<not> getRBER exEnvR (refresh_period exEnvR * 1000000000 * 2 ^ 0) 0 0 > eccCapability"
  by (simp add: ftl_eval exEnvR_def exEnv_def exBoot_def exPool_def)

theorem writeUnit_registers_refresh_witness:
  "blocks (exBoot\<lparr>table := [(5, [(3, 2)])]\<rparr>) 0 = Some (newBlock 0 2 1 0)
   \<and> (\<exists>s' fin'.
         writeUnit exEnvR \<lparr>lpn = 5, ioFlag = [True]\<rparr> 0 120 False True 0
           (exBoot\<lparr>table := [(5, [(3, 2)])]\<rparr>, 100) = Inr (s', fin')
         \<and> length (bloomFilters s') = 2
         \<and> inserted (bloomFilters s' ! 0) = []
         \<and> inserted (bloomFilters s' ! 1) = [refreshKey 0 0])"
proof -
  let ?s = "exBoot\<lparr>table := [(5, [(3, 2)])]\<rparr>"
  let ?req = "\<lparr>lpn = 5, ioFlag = [True]\<rparr>"
  have b: "blocks ?s 0 = Some (newBlock 0 2 1 0)"
    by (simp add: exBoot_def exPool_def)
  have "\<exists>s' fin'. writeUnit exEnvR ?req 0 120 False True 0 (?s, 100) = Inr (s', fin')"
    by (simp add: ftl_eval exEnvR_def exEnv_def exBoot_def exPool_def)
  then obtain s' fin' where w: "writeUnit exEnvR ?req 0 120 False True 0 (?s, 100) = Inr (s', fin')"
    by blast
  have h: "bit_test (ioFlag ?req) 0 \<or> \<not> bRandomTweak exEnvR"
    by (simp add: bit_test_def)
  have f: "bloomFilters ?s = [emptyBloom, emptyBloom]" by (simp add: exBoot_def exPool_def)
  have p: "nextWritePageIndex (newBlock 0 2 1 0) ! 0 mod 64 = 0" by (simp add: newBlock_def)
  have r0: "\<not> getRBER exEnvR (refresh_period exEnvR * 1000000000 * 2 ^ 0)
            (eraseCount (newBlock 0 2 1 0)) (nextWritePageIndex (newBlock 0 2 1 0) ! 0 mod 64)
          > eccCapability"
    unfolding p by (simp add: exEnvR_def exEnv_def eccCapability_def)
  note th = writeUnit_registers_refresh [OF w h b]
  from th have len: "length (bloomFilters s') = 2" by (simp add: f)
  from th have all: "\<forall>L < length (bloomFilters ?s).
            inserted (bloomFilters s' ! L)
              = inserted (bloomFilters ?s ! L)
                @ (if L = length (bloomFilters ?s) - 1
                       \<or> getRBER exEnvR (refresh_period exEnvR * 1000000000 * 2 ^ L)
                            (eraseCount (newBlock 0 2 1 0))
                            (nextWritePageIndex (newBlock 0 2 1 0) ! 0 mod 64) > eccCapability
                   then [refreshKey 0 (nextWritePageIndex (newBlock 0 2 1 0) ! 0 mod 64)] else [])"
    by blast
  have l0: "0 < length (bloomFilters ?s)" and l1: "1 < length (bloomFilters ?s)"
    by (simp_all add: f)
  from all [rule_format, OF l0] r0 have i0: "inserted (bloomFilters s' ! 0) = []"
    unfolding p by (simp add: f emptyBloom_def)
  from all [rule_format, OF l1] have i1: "inserted (bloomFilters s' ! 1) = [refreshKey 0 0]"
    unfolding p by (simp add: f emptyBloom_def)
  from b w len i0 i1 show ?thesis by blast
qed

lemma trimUnit_table: "trimUnit ml idx s = Inr s' \<Longrightarrow> table s' = table s"
  by (auto simp: trimUnit_def split: if_splits option.splits elim!: bindE_InrE)

lemma trimUnits_table: "foldE (trimUnit ml) xs s = Inr s' \<Longrightarrow> table s' = table s"
  by (rule foldE_inv [where P = "\<lambda>a. table a = table s"]) (auto dest: trimUnit_table)

lemma table_doIO [simp]: "table (fst (doIO e c s t)) = table s"
  by (simp add: doIO_def Let_def)

lemma trimInternal_unmapped:
  "map_of (table s) (lpn req) = None \<Longrightarrow> trimInternal e s req t = Inr (s, t)"
  by (simp add: trimInternal_def)

lemma trimInternal_removes:
  assumes "trimInternal e s req t = Inr (s', t')"
  shows "map_of (table s') (lpn req) = None"
proof (cases "map_of (table s) (lpn req)")
  case None
  with assms show ?thesis by (simp add: trimInternal_def)
next
  case (Some ml)
  with assms obtain s2 where
    f: "foldE (trimUnit ml) [0..<bitsetSize e] (fst (doIO e (DramRead (lpn req) (mappingBytes e req)) s t)) = Inr s2"
    and s': "s' = s2\<lparr>table := AList.delete (lpn req) (table s2)\<rparr>"
    by (auto simp: trimInternal_def Let_def split_beta elim!: bindE_InrE)
  show ?thesis by (simp add: s' delete_conv')
qed

text \<open>
  Claim C7. When a trim of an LPN returns, the LPN has no mapping entry any more, and a
  second trim of the same LPN returns the very same state (mapping table, blocks with their
  valid and erased bits, free pool, and everything else): it only adds the CPU latency of
  \<^verbatim>\<open>trim\<close> to the tick.
\<close>

theorem trim_twice_is_trim_once:
  assumes "PageMapping_trim e s req t = Inr (s1, t1)" and "lpn req' = lpn req"
  shows "map_of (table s1) (lpn req) = None
       \<and> PageMapping_trim e s1 req' t1 = Inr (s1, t1 + applyLatency e TRIM)"
proof -
  from assms(1) obtain t0 where "trimInternal e s req t = Inr (s1, t0)"
    by (auto simp: PageMapping_trim_def elim!: bindE_InrE)
  then have n: "map_of (table s1) (lpn req) = None" by (rule trimInternal_removes)
  with assms(2) have "trimInternal e s1 req' t1 = Inr (s1, t1)"
    by (simp add: trimInternal_unmapped)
  with n show ?thesis by (simp add: PageMapping_trim_def)
qed

theorem trim_twice_is_trim_once_witness:
  "\<exists>s0 t0 s1 t1.
      PageMapping_write exEnv exBoot \<lparr>lpn = 5, ioFlag = [True]\<rparr> 100 = Inr (s0, t0)
      \<and> map_of (table s0) 5 = Some [(0, 0)]
      \<and> PageMapping_trim exEnv s0 \<lparr>lpn = 5, ioFlag = [True]\<rparr> t0 = Inr (s1, t1)
      \<and> map_of (table s1) 5 = None
      \<and> PageMapping_trim exEnv s1 \<lparr>lpn = 5, ioFlag = [True]\<rparr> t1 = Inr (s1, t1 + 1)"
proof -
  let ?r = "\<lparr>lpn = 5, ioFlag = [True]\<rparr>"
  have "\<exists>s0 t0. PageMapping_write exEnv exBoot ?r 100 = Inr (s0, t0)
          \<and> map_of (table s0) 5 = Some [(0, 0)]
          \<and> (\<exists>s1 t1. PageMapping_trim exEnv s0 ?r t0 = Inr (s1, t1))"
    by (simp add: ftl_eval PageMapping_trim_def trimInternal_def trimUnit_def
        exEnv_def exBoot_def exPool_def)
  then obtain s0 t0 s1 t1 where
    w: "PageMapping_write exEnv exBoot ?r 100 = Inr (s0, t0)"
    and m: "map_of (table s0) 5 = Some [(0, 0)]"
    and t: "PageMapping_trim exEnv s0 ?r t0 = Inr (s1, t1)"
    by blast
  have l: "applyLatency exEnv TRIM = 1" by (simp add: exEnv_def)
  from trim_twice_is_trim_once [OF t refl] have
    "map_of (table s1) 5 = None" "PageMapping_trim exEnv s1 ?r t1 = Inr (s1, t1 + 1)"
    by (simp_all add: l)
  with w m t show ?thesis by blast
qed

lemma foldE_either:
  assumes "\<And>x a. x \<in> set xs \<Longrightarrow> I a \<Longrightarrow> f x a = Inl P \<or> (\<exists>b. f x a = Inr b \<and> I b)"
    and "I a"
  shows "foldE f xs a = Inl P \<or> (\<exists>b. foldE f xs a = Inr b \<and> I b)"
  using assms
proof (induction xs arbitrary: a)
  case Nil
  then show ?case by simp
next
  case (Cons x xs)
  from Cons.prems(1) [of x a] Cons.prems(2)
  consider "f x a = Inl P" | b where "f x a = Inr b" "I b" by auto
  then show ?case
  proof cases
    case 1
    then show ?thesis by simp
  next
    case 2
    with Cons.IH [of b] Cons.prems(1) show ?thesis by simp
  qed
qed

lemma foldE_panic:
  assumes "\<And>x a. x \<in> set xs \<Longrightarrow> I a \<Longrightarrow> f x a = Inl P \<or> (\<exists>b. f x a = Inr b \<and> I b)"
    and "x0 \<in> set xs" and "\<And>a. I a \<Longrightarrow> f x0 a = Inl P"
    and "I a"
  shows "foldE f xs a = Inl P"
  using assms
proof (induction xs arbitrary: a)
  case Nil
  then show ?case by simp
next
  case (Cons x xs)
  show ?case
  proof (cases "f x a")
    case (Inl err)
    with Cons.prems(1) [of x a] Cons.prems(4) show ?thesis by auto
  next
    case (Inr b)
    with Cons.prems(1) [of x a] Cons.prems(4) have b: "I b" by auto
    from Inr Cons.prems(3) [OF Cons.prems(4)] have "x \<noteq> x0" by auto
    with Cons.prems(2) have "x0 \<in> set xs" by simp
    with Cons.IH [of b] Cons.prems(1,3) b Inr show ?thesis by simp
  qed
qed

lemma slotOk_shape: "blockShape s' = blockShape s \<Longrightarrow> slotOk s' m i = slotOk s m i"
proof -
  assume "blockShape s' = blockShape s"
  then have "blockShape s' (fst m) = blockShape s (fst m)" by simp
  then show ?thesis
    by (auto simp: blockShape_def slotOk_def in_bits_def split: option.splits)
       (metis length_map nth_map)+
qed

lemma blocks_None_shape: "blockShape s' = blockShape s \<Longrightarrow> blocks s' k = None \<longleftrightarrow> blocks s k = None"
proof -
  assume "blockShape s' = blockShape s"
  then have "blockShape s' k = blockShape s k" by simp
  then show ?thesis by (auto simp: blockShape_def)
qed

lemma map_length_put_bits [simp]: "map length (put_bits m p i v) = map length m"
proof (cases "p < length m")
  case True
  then have "(map length m)[p := length (m ! p)] = map length m"
    by (metis list_update_id nth_map)
  then show ?thesis by (simp add: put_bits_def map_update)
next
  case False
  then have "m[p := (m ! p)[i := v]] = m" by (simp add: list_update_beyond)
  then show ?thesis by (simp add: put_bits_def)
qed

lemma trimUnit_cases:
  assumes "x < length ml" and "slotOk s (ml ! x) x"
  shows "(blocks s (fst (ml ! x)) = None \<and> trimUnit ml x s = Inl (Panic ''Block is not in use''))
       \<or> (\<exists>s'. trimUnit ml x s = Inr s' \<and> blockShape s' = blockShape s \<and> table s' = table s)"
proof (cases "blocks s (fst (ml ! x))")
  case None
  with assms show ?thesis by (simp add: trimUnit_def)
next
  case (Some b)
  with assms have "in_bits (validBits b) (snd (ml ! x)) x" by (simp add: slotOk_def)
  with assms Some show ?thesis
    by (auto simp: trimUnit_def block_invalidate_def blockShape_def fun_eq_iff)
qed

lemma trimUnits_panic:
  assumes "slotsInRange s ml n" and "j < n" and "blocks s (fst (ml ! j)) = None"
  shows "foldE (trimUnit ml) [0..<n] s = Inl (Panic ''Block is not in use'')"
proof (rule foldE_panic [where I = "\<lambda>a. blockShape a = blockShape s" and ?x0.0 = j])
  fix x a assume x: "x \<in> set [0..<n]" and a: "blockShape a = blockShape s"
  from assms(1) x have "x < length ml" "slotOk s (ml ! x) x"
    by (auto simp: slotsInRange_def list_all_iff)
  with slotOk_shape [OF a] have "x < length ml" "slotOk a (ml ! x) x" by simp_all
  from trimUnit_cases [OF this] a
  show "trimUnit ml x a = Inl (Panic ''Block is not in use'')
          \<or> (\<exists>b. trimUnit ml x a = Inr b \<and> blockShape b = blockShape s)"
    by auto
next
  show "j \<in> set [0..<n]" using assms(2) by simp
next
  fix a assume a: "blockShape a = blockShape s"
  from assms have "j < length ml" by (simp add: slotsInRange_def)
  moreover from blocks_None_shape [OF a] assms(3) have "blocks a (fst (ml ! j)) = None" by simp
  ultimately show "trimUnit ml j a = Inl (Panic ''Block is not in use'')"
    by (simp add: trimUnit_def)
next
  show "blockShape s = blockShape s" ..
qed

lemma formatUnits_either:
  assumes "slotsInRange s ml n" and "blockShape a = blockShape s"
  shows "foldE (formatUnit ml) [0..<n] (a, l) = Inl (Panic ''Block is not in use'')
       \<or> (\<exists>b. foldE (formatUnit ml) [0..<n] (a, l) = Inr b \<and> blockShape (fst b) = blockShape s)"
proof (rule foldE_either [where I = "\<lambda>c. blockShape (fst c) = blockShape s"])
  fix x and c :: "ftl \<times> nat list"
  assume x: "x \<in> set [0..<n]" and c: "blockShape (fst c) = blockShape s"
  from assms(1) x have "x < length ml" "slotOk s (ml ! x) x"
    by (auto simp: slotsInRange_def list_all_iff)
  with slotOk_shape [OF c] have "x < length ml" "slotOk (fst c) (ml ! x) x" by simp_all
  from trimUnit_cases [OF this] c
  show "formatUnit ml x c = Inl (Panic ''Block is not in use'')
          \<or> (\<exists>b. formatUnit ml x c = Inr b \<and> blockShape (fst b) = blockShape s)"
    by (cases c) (auto simp: formatUnit_def)
next
  show "blockShape (fst (a, l)) = blockShape s" using assms(2) by simp
qed

lemma formatUnits_panic:
  assumes "slotsInRange s ml n" and "j < n" and "blocks s (fst (ml ! j)) = None"
    and "blockShape a = blockShape s"
  shows "foldE (formatUnit ml) [0..<n] (a, l) = Inl (Panic ''Block is not in use'')"
proof (rule foldE_panic [where I = "\<lambda>c. blockShape (fst c) = blockShape s" and ?x0.0 = j])
  fix x and c :: "ftl \<times> nat list"
  assume x: "x \<in> set [0..<n]" and c: "blockShape (fst c) = blockShape s"
  from assms(1) x have "x < length ml" "slotOk s (ml ! x) x"
    by (auto simp: slotsInRange_def list_all_iff)
  with slotOk_shape [OF c] have "x < length ml" "slotOk (fst c) (ml ! x) x" by simp_all
  from trimUnit_cases [OF this] c
  show "formatUnit ml x c = Inl (Panic ''Block is not in use'')
          \<or> (\<exists>b. formatUnit ml x c = Inr b \<and> blockShape (fst b) = blockShape s)"
    by (cases c) (auto simp: formatUnit_def)
next
  show "j \<in> set [0..<n]" using assms(2) by simp
next
  fix c :: "ftl \<times> nat list"
  assume c: "blockShape (fst c) = blockShape s"
  from assms have "j < length ml" by (simp add: slotsInRange_def)
  moreover from blocks_None_shape [OF c] assms(3) have "blocks (fst c) (fst (ml ! j)) = None" by simp
  ultimately show "formatUnit ml j c = Inl (Panic ''Block is not in use'')"
    by (cases c) (simp add: formatUnit_def trimUnit_def)
next
  show "blockShape (fst (a, l)) = blockShape s" using assms(4) by simp
qed

lemma blockShape_table_upd [simp]: "blockShape (s\<lparr>table := x\<rparr>) = blockShape s"
  by (simp add: blockShape_def fun_eq_iff)

lemma blockShape_doIO [simp]: "blockShape (fst (doIO e c s t)) = blockShape s"
  by (simp add: blockShape_def fun_eq_iff doIO_def Let_def)

lemma slotsInRange_shape:
  "blockShape s' = blockShape s \<Longrightarrow> slotsInRange s' ml n = slotsInRange s ml n"
proof -
  assume h: "blockShape s' = blockShape s"
  have "slotOk s' m i = slotOk s m i" for m i by (rule slotOk_shape [OF h])
  then show ?thesis by (simp add: slotsInRange_def)
qed

lemma formatEntry_either:
  assumes "slotsInRange s m (bitsetSize e)" and "blockShape a = blockShape s"
  shows "formatEntry e slpn nlp (k, m) (a, l) = Inl (Panic ''Block is not in use'')
       \<or> (\<exists>b. formatEntry e slpn nlp (k, m) (a, l) = Inr b \<and> blockShape (fst b) = blockShape s)"
proof (cases "slpn \<le> k \<and> k < (slpn + nlp) mod 2 ^ 64")
  case False
  then show ?thesis using assms(2) by (auto simp: formatEntry_def)
next
  case True
  from formatUnits_either [OF assms, of l]
  consider "foldE (formatUnit m) [0..<bitsetSize e] (a, l) = Inl (Panic ''Block is not in use'')"
    | b where "foldE (formatUnit m) [0..<bitsetSize e] (a, l) = Inr b" "blockShape (fst b) = blockShape s"
    by blast
  then show ?thesis
  proof cases
    case 1
    with True show ?thesis by (simp add: formatEntry_def)
  next
    case 2
    with True show ?thesis by (cases b) (simp add: formatEntry_def)
  qed
qed

lemma formatEntry_panic:
  assumes "slotsInRange s m (bitsetSize e)" and "blockShape a = blockShape s"
    and "j < bitsetSize e" and "blocks s (fst (m ! j)) = None"
    and "slpn \<le> k" and "k < (slpn + nlp) mod 2 ^ 64"
  shows "formatEntry e slpn nlp (k, m) (a, l) = Inl (Panic ''Block is not in use'')"
  using formatUnits_panic [OF assms(1,3,4,2), of l] assms(5,6)
  by (simp add: formatEntry_def)

text \<open>
  Claim C9. Let the LPN have a mapping entry one of whose slots (for an I/O unit below
  \<^verbatim>\<open>bitsetSize\<close>) is still the sentinel pair, no block in use having the index
  \<^verbatim>\<open>totalPhysicalBlocks\<close>; let the slots of the table's entries be in range for the blocks
  in use. Then \<^verbatim>\<open>trim\<close> of the LPN, and \<^verbatim>\<open>format\<close> of a range that contains it, end in
  the panic \<^verbatim>\<open>Block is not in use\<close>: both look up the block of every slot.
\<close>

theorem sentinel_slot_panics:
  assumes "map_of (table s) (lpn req) = Some ml"
    and "j < bitsetSize e" and "ml ! j = (totalPhysicalBlocks e, pagesInBlock e)"
    and "blocks s (totalPhysicalBlocks e) = None"
    and "\<forall>(k, m) \<in> set (table s). slotsInRange s m (bitsetSize e)"
    and "slpn \<le> lpn req" and "lpn req < (slpn + nlp) mod 2 ^ 64"
  shows "PageMapping_trim e s req t = Inl (Panic ''Block is not in use'')
       \<and> PageMapping_format e s slpn nlp t = Inl (Panic ''Block is not in use'')"
proof
  have mem: "(lpn req, ml) \<in> set (table s)" using assms(1) by (rule map_of_SomeD)
  with assms(5) have ok: "slotsInRange s ml (bitsetSize e)" by auto
  have none: "blocks s (fst (ml ! j)) = None" using assms(3,4) by simp
  let ?s1 = "fst (doIO e (DramRead (lpn req) (mappingBytes e req)) s t)"
  have ok1: "slotsInRange ?s1 ml (bitsetSize e)"
    using ok by (simp only: slotsInRange_shape [OF blockShape_doIO])
  have none1: "blocks ?s1 (fst (ml ! j)) = None" using none by (simp add: doIO_def Let_def)
  from trimUnits_panic [OF ok1 assms(2) none1] assms(1)
  show "PageMapping_trim e s req t = Inl (Panic ''Block is not in use'')"
    by (simp add: PageMapping_trim_def trimInternal_def Let_def split_beta)
next
  have mem: "(lpn req, ml) \<in> set (table s)" using assms(1) by (rule map_of_SomeD)
  have none: "blocks s (fst (ml ! j)) = None" using assms(3,4) by simp
  have "foldE (formatEntry e slpn nlp) (table s) (s, []) = Inl (Panic ''Block is not in use'')"
  proof (rule foldE_panic [where I = "\<lambda>c. blockShape (fst c) = blockShape s"
        and ?x0.0 = "(lpn req, ml)"])
    fix x and c :: "ftl \<times> nat list"
    assume x: "x \<in> set (table s)" and c: "blockShape (fst c) = blockShape s"
    obtain k m where km: "x = (k, m)" by (cases x)
    obtain a l where al: "c = (a, l)" by (cases c)
    from assms(5) x km have "slotsInRange s m (bitsetSize e)" by auto
    from formatEntry_either [OF this, of a slpn nlp k l] c
    show "formatEntry e slpn nlp x c = Inl (Panic ''Block is not in use'')
            \<or> (\<exists>b. formatEntry e slpn nlp x c = Inr b \<and> blockShape (fst b) = blockShape s)"
      unfolding km al by simp
  next
    show "(lpn req, ml) \<in> set (table s)" by (rule mem)
  next
    fix c :: "ftl \<times> nat list"
    assume c: "blockShape (fst c) = blockShape s"
    obtain a l where al: "c = (a, l)" by (cases c)
    from assms(5) mem have "slotsInRange s ml (bitsetSize e)" by auto
    from formatEntry_panic [OF this _ assms(2) none assms(6,7), of a l] c
    show "formatEntry e slpn nlp (lpn req, ml) c = Inl (Panic ''Block is not in use'')"
      unfolding al by simp
  next
    show "blockShape (fst (s, [])) = blockShape s" by simp
  qed
  then show "PageMapping_format e s slpn nlp t = Inl (Panic ''Block is not in use'')"
    by (simp add: PageMapping_format_def)
qed

theorem sentinel_slot_panics_witness:
  "\<exists>s0 t0.
      PageMapping_write exEnvT exBootT \<lparr>lpn = 5, ioFlag = [True, False]\<rparr> 100 = Inr (s0, t0)
      \<and> map_of (table s0) 5 = Some [(0, 0), (totalPhysicalBlocks exEnvT, pagesInBlock exEnvT)]
      \<and> PageMapping_trim exEnvT s0 \<lparr>lpn = 5, ioFlag = [True, True]\<rparr> t0
            = Inl (Panic ''Block is not in use'')
      \<and> PageMapping_format exEnvT s0 0 10 t0 = Inl (Panic ''Block is not in use'')"
proof -
  have "\<exists>s0 t0. PageMapping_write exEnvT exBootT \<lparr>lpn = 5, ioFlag = [True, False]\<rparr> 100 = Inr (s0, t0)
          \<and> table s0 = [(5, [(0, 0), (3, 2)])] \<and> blocks s0 3 = None
          \<and> (\<exists>b. blocks s0 0 = Some b \<and> validBits b = [[True, False], [False, False]])"
    by (simp add: ftl_eval exEnvT_def exEnv_def exBootT_def exPool_def numeral_2_eq_2)
  then obtain s0 t0 b where
    w: "PageMapping_write exEnvT exBootT \<lparr>lpn = 5, ioFlag = [True, False]\<rparr> 100 = Inr (s0, t0)"
    and tb: "table s0 = [(5, [(0, 0), (3, 2)])]" and b3: "blocks s0 3 = None"
    and b0: "blocks s0 0 = Some b" "validBits b = [[True, False], [False, False]]"
    by blast
  let ?req = "\<lparr>lpn = 5, ioFlag = [True, True]\<rparr>"
  have c: "totalPhysicalBlocks exEnvT = 3" "pagesInBlock exEnvT = 2" "bitsetSize exEnvT = 2"
    by (simp_all add: exEnvT_def exEnv_def bitsetSize_def)
  have 1: "map_of (table s0) (lpn ?req) = Some [(0, 0), (3, 2)]" by (simp add: tb)
  have 2: "1 < bitsetSize exEnvT" by (simp add: c)
  have 3: "[(0, 0), (3, 2)] ! 1 = (totalPhysicalBlocks exEnvT, pagesInBlock exEnvT)"
    by (simp add: c)
  have 4: "blocks s0 (totalPhysicalBlocks exEnvT) = None" by (simp add: c b3)
  have 5: "\<forall>(k, m) \<in> set (table s0). slotsInRange s0 m (bitsetSize exEnvT)"
    by (simp add: tb c slotsInRange_def slotOk_def b3 b0 in_bits_def numeral_2_eq_2)
  have 6: "0 \<le> lpn ?req" "lpn ?req < (0 + 10) mod 2 ^ 64" by simp_all
  from sentinel_slot_panics [OF 1 2 3 4 5 6, of t0] w 1 c show ?thesis by auto
qed

lemma foldE_relp:
  assumes "foldE f xs a = Inr b"
    and "\<And>x a b. x \<in> set xs \<Longrightarrow> f x a = Inr b \<Longrightarrow> R (p a) (p b)"
    and "\<And>s. R s s"
    and "\<And>s1 s2 s3. R s1 s2 \<Longrightarrow> R s2 s3 \<Longrightarrow> R s1 s3"
  shows "R (p a) (p b)"
  by (rule foldE_inv [OF assms(1), where P = "\<lambda>c. R (p a) (p c)"])
     (blast intro: assms(2-4))+

lemma dramOnly_refl [simp]: "dramOnly a a"
  by (auto simp: dramOnly_def lastFinish_def intro!: exI [of _ "[]"])

lemma lastFinish_append: "lastFinish (lastFinish t D1) D2 = lastFinish t (D1 @ D2)"
  by (simp add: lastFinish_def)

lemma chained_append: "chained t (D1 @ D2) \<longleftrightarrow> chained t D1 \<and> chained (lastFinish t D1) D2"
  by (induction D1 arbitrary: t) (auto simp: lastFinish_def)

lemma dramOnly_trans: "dramOnly a b \<Longrightarrow> dramOnly b c \<Longrightarrow> dramOnly a c"
proof -
  assume "dramOnly a b" "dramOnly b c"
  then obtain D1 D2 where
    1: "ioLog (fst b) = ioLog (fst a) @ D1" "\<forall>ev \<in> set D1. isDramRead (fst ev)"
       "chained (fst (snd a)) D1" "fst (snd b) = lastFinish (fst (snd a)) D1"
       "length (snd (snd b)) = length (snd (snd a)) + length D1"
    and 2: "ioLog (fst c) = ioLog (fst b) @ D2" "\<forall>ev \<in> set D2. isDramRead (fst ev)"
       "chained (fst (snd b)) D2" "fst (snd c) = lastFinish (fst (snd b)) D2"
       "length (snd (snd c)) = length (snd (snd b)) + length D2"
    unfolding dramOnly_def by blast
  then have "ioLog (fst c) = ioLog (fst a) @ (D1 @ D2)" "\<forall>ev \<in> set (D1 @ D2). isDramRead (fst ev)"
    "chained (fst (snd a)) (D1 @ D2)"
    "fst (snd c) = lastFinish (fst (snd a)) (D1 @ D2)"
    "length (snd (snd c)) = length (snd (snd a)) + length (D1 @ D2)"
    by (auto simp: lastFinish_append chained_append)
  then show ?thesis unfolding dramOnly_def by blast
qed

lemma dramOnly_same: "ioLog s' = ioLog s \<Longrightarrow> dramOnly (s, t, wr) (s', t, wr)"
  by (auto simp: dramOnly_def lastFinish_def intro!: exI [of _ "[]"])

lemma dramOnly_doIO:
  assumes "doIO e (DramRead l n) s t = (s1, t1)" and "ioLog s' = ioLog s1"
  shows "dramOnly (s, t, wr) (s', t1, wr @ [x])"
  using assms
  by (auto simp: dramOnly_def doIO_def Let_def lastFinish_def finishOf_def beginOf_def isDramRead_def
      intro!: exI [of _ "[(DramRead l n, t, ioFinish e (ioLog s) (DramRead l n) t)]"])

lemma getFreeBlock_ioLog: "getFreeBlock e s i = Inr (s', n) \<Longrightarrow> ioLog s' = ioLog s"
  by (auto simp: getFreeBlock_def Let_def split: if_splits)

lemma getLastFreeBlock_ioLog: "getLastFreeBlock e s m = Inr (s', n) \<Longrightarrow> ioLog s' = ioLog s"
  by (auto simp: getLastFreeBlock_def Let_def
      split: if_splits option.splits elim!: bindE_InrE dest!: getFreeBlock_ioLog)

lemma gcCopyUnit_dram:
  assumes "gcCopyUnit e src page nb lpns bits idx (s, t, wr) = Inr (s', t', wr')"
  shows "dramOnly (s, t, wr) (s', t', wr')"
proof (cases "bit_test bits idx")
  case False
  with assms show ?thesis by (simp add: gcCopyUnit_def)
next
  case True
  with assms obtain b b' where b: "blocks s src = Some b" "block_invalidate b page idx = Inr b'"
    by (auto simp: gcCopyUnit_def split: option.splits elim!: bindE_InrE)
  let ?s1 = "s\<lparr>blocks := (blocks s)(src \<mapsto> b')\<rparr>"
  obtain s2 t2 where d: "doIO e (DramRead (lpns ! idx) (8 * ioUnitInPage e)) ?s1 t = (s2, t2)"
    by (cases "doIO e (DramRead (lpns ! idx) (8 * ioUnitInPage e)) ?s1 t")
  from assms True b d obtain x where "ioLog s' = ioLog s2" "t' = t2" "wr' = wr @ [x]"
    by (auto simp: gcCopyUnit_def Let_def split: option.splits if_splits
        elim!: bindE_InrE)
  with dramOnly_doIO [OF d, of s' wr x] have "dramOnly (?s1, t, wr) (s', t', wr')" by simp
  then show ?thesis by (simp add: dramOnly_def)
qed

lemma gcCopyPage_dram:
  assumes "gcCopyPage e src page (s, t, rd, wr) = Inr (s', t', rd', wr')"
  shows "dramOnly (s, t, wr) (s', t', wr')"
proof (cases "blocks s src")
  case None
  with assms show ?thesis by (simp add: gcCopyPage_def)
next
  case (Some b)
  from assms Some obtain lpns bits0 valid where
    pi: "block_getPageInfo b page = Inr (lpns, bits0, valid)"
    by (auto simp: gcCopyPage_def elim!: bindE_InrE)
  show ?thesis
  proof (cases valid)
    case False
    with assms Some pi show ?thesis by (simp add: gcCopyPage_def)
  next
    case True
    define bits where "bits = (if bRandomTweak e then bits0 else bit_set_all bits0)"
    from assms Some pi True obtain s1 nb s2 t2 wr2 where
      g: "getLastFreeBlock e s bits = Inr (s1, nb)"
      and f: "foldE (gcCopyUnit e src page nb lpns bits) [0..<bitsetSize e] (s1, t, wr) = Inr (s2, t2, wr2)"
      and r: "s' = s2\<lparr>validSuperPageCopies := validSuperPageCopies s2 + 1\<rparr>" "t' = t2" "wr' = wr2"
      by (auto simp: gcCopyPage_def Let_def bits_def elim!: bindE_InrE)
    have 1: "dramOnly (s, t, wr) (s1, t, wr)"
      by (rule dramOnly_same) (rule getLastFreeBlock_ioLog [OF g])
    have 2: "dramOnly (s1, t, wr) (s2, t2, wr2)"
      by (rule foldE_inv [OF f, where P = "\<lambda>c. dramOnly (s1, t, wr) c"])
         (auto dest: gcCopyUnit_dram intro: dramOnly_trans)
    have 3: "dramOnly (s2, t2, wr2) (s', t', wr')"
      unfolding r by (rule dramOnly_same) simp
    from 1 2 3 show ?thesis by (blast intro: dramOnly_trans)
  qed
qed

lemma gcCollect_dram:
  assumes "gcCollect e v (s, t, rd, wr, er) = Inr (s', t', rd', wr', er')"
  shows "dramOnly (s, t, wr) (s', t', wr')
       \<and> er' = er @ [\<lparr>blockIndex = v, pageIndex = 0, palFlag = replicate (ioUnitInPage e) True\<rparr>]"
proof -
  from assms obtain b where "blocks s v = Some b"
    by (auto simp: gcCollect_def split: option.splits)
  with assms have f: "foldE (gcCopyPage e v) [0..<pagesInBlock e] (s, t, rd, wr) = Inr (s', t', rd', wr')"
    and er: "er' = er @ [\<lparr>blockIndex = v, pageIndex = 0, palFlag = replicate (ioUnitInPage e) True\<rparr>]"
    by (auto simp: gcCollect_def elim!: bindE_InrE)
  have "dramOnly ((\<lambda>a. (fst a, fst (snd a), snd (snd (snd a)))) (s, t, rd, wr))
                 ((\<lambda>a. (fst a, fst (snd a), snd (snd (snd a)))) (s', t', rd', wr'))"
    by (rule foldE_relp [OF f, where R = dramOnly])
       (auto dest: gcCopyPage_dram intro: dramOnly_trans)
  with er show ?thesis by simp
qed

lemma gcCollect_fold:
  assumes "foldE (gcCollect e) vs (s, t, rd, wr, er) = Inr (s', t', rd', wr', er')"
  shows "dramOnly (s, t, wr) (s', t', wr')
       \<and> er' = er @ map (\<lambda>v. \<lparr>blockIndex = v, pageIndex = 0,
                                  palFlag = replicate (ioUnitInPage e) True\<rparr>) vs"
  using assms
proof (induction vs arbitrary: s t rd wr er)
  case Nil
  then show ?case by simp
next
  case (Cons v vs)
  from Cons.prems obtain s1 t1 rd1 wr1 er1 where
    1: "gcCollect e v (s, t, rd, wr, er) = Inr (s1, t1, rd1, wr1, er1)"
    and 2: "foldE (gcCollect e) vs (s1, t1, rd1, wr1, er1) = Inr (s', t', rd', wr', er')"
    by (auto elim!: bindE_InrE)
  from gcCollect_dram [OF 1] Cons.IH [OF 2] show ?case
    by (auto intro: dramOnly_trans)
qed

lemma maxFinish_snoc: "maxFinish (max fin x) xs = maxFinish fin (x # xs)"
  by (simp add: maxFinish_def)

lemma issueAll_log:
  assumes "issueAll e k b rs (s, fin) = (s', fin')"
  shows "\<exists>evs. ioLog s' = ioLog s @ evs \<and> map fst evs = map k rs
            \<and> (\<forall>ev \<in> set evs. beginOf ev = b) \<and> fin' = maxFinish fin (map finishOf evs)"
  using assms
proof (induction rs arbitrary: s fin)
  case Nil
  then show ?case by (simp add: maxFinish_def)
next
  case (Cons r rs)
  let ?ev = "(k r, b, ioFinish e (ioLog s) (k r) b)"
  from Cons.prems have
    "issueAll e k b rs (s\<lparr>ioLog := ioLog s @ [?ev]\<rparr>, max fin (finishOf ?ev)) = (s', fin')"
    by (simp add: doIO_def Let_def finishOf_def)
  from Cons.IH [OF this] obtain evs where
    evs: "ioLog s' = ioLog s @ ?ev # evs" "map fst evs = map k rs"
      "\<forall>ev \<in> set evs. beginOf ev = b" "fin' = maxFinish (max fin (finishOf ?ev)) (map finishOf evs)"
    by auto
  show ?case
    using evs by (intro exI [of _ "?ev # evs"]) (simp add: maxFinish_snoc beginOf_def)
qed

lemma eraseInternal_log:
  assumes "eraseInternal e s r t = Inr (s', t')"
  shows "ioLog s' = ioLog s @ [(PalErase r, t, ioFinish e (ioLog s) (PalErase r) t)]
       \<and> t' = ioFinish e (ioLog s) (PalErase r) t + applyLatency e ERASE_INTERNAL"
  using assms
  by (auto simp: eraseInternal_def doIO_def Let_def split: option.splits if_splits)

lemma gcErase_fold:
  assumes "foldE (gcErase e b) rs (s, fin) = Inr (s', fin')"
  shows "\<exists>evs. ioLog s' = ioLog s @ evs \<and> map fst evs = map PalErase rs
            \<and> (\<forall>ev \<in> set evs. beginOf ev = b)
            \<and> fin' = maxFinish fin (map (\<lambda>ev. finishOf ev + applyLatency e ERASE_INTERNAL) evs)"
  using assms
proof (induction rs arbitrary: s fin)
  case Nil
  then show ?case by (simp add: maxFinish_def)
next
  case (Cons r rs)
  let ?ev = "(PalErase r, b, ioFinish e (ioLog s) (PalErase r) b)"
  from Cons.prems obtain c where
    c: "gcErase e b r (s, fin) = Inr c" "foldE (gcErase e b) rs c = Inr (s', fin')"
    by (auto elim!: bindE_InrE)
  from c(1) obtain s1 t1 where
    1: "eraseInternal e s r b = Inr (s1, t1)" and c': "c = (s1, max fin t1)"
    by (auto simp: gcErase_def elim!: bindE_InrE)
  note 2 = c(2) [unfolded c']
  note a = eraseInternal_log [OF 1]
  from Cons.IH [OF 2] obtain evs where
    evs: "ioLog s' = ioLog s1 @ evs" "map fst evs = map PalErase rs"
      "\<forall>ev \<in> set evs. beginOf ev = b"
      "fin' = maxFinish (max fin t1) (map (\<lambda>ev. finishOf ev + applyLatency e ERASE_INTERNAL) evs)"
    by auto
  show ?case
    using evs a by (intro exI [of _ "?ev # evs"]) (simp add: maxFinish_snoc beginOf_def finishOf_def)
qed

text \<open>
  Claim C6 (amended). A call of \<^verbatim>\<open>doGarbageCollection\<close> on a list that is not empty
  extends the log by four runs of calls: the DRAM reads of the mapping entries, made while the
  requests are collected, one per copied I/O unit (as many as there are PAL writes), each
  beginning where the previous one finished, the first at the tick \<open>t\<close> of the call; then
  the PAL reads, every one beginning at the tick the DRAM reads have reached (\<open>t\<close> itself
  only when nothing is copied or the last DRAM read finishes at \<open>t\<close>); then the PAL writes,
  every one
  beginning at the maximum of \<open>t\<close> and the read finish ticks; then one PAL erase per block,
  every one beginning at that same maximum. The tick returned is the maximum of \<open>t\<close>, the
  write finish ticks and the erase finish ticks (each with the latency of
  \<^verbatim>\<open>eraseInternal\<close>), plus the latency of the collection.
\<close>

theorem doGarbageCollection_timing:
  assumes "doGarbageCollection e s vs t = Inr (s', t')" and "vs \<noteq> []"
  shows "\<exists>D R W E.
      ioLog s' = ioLog s @ D @ R @ W @ E
    \<and> (\<forall>ev \<in> set D. isDramRead (fst ev))
    \<and> length D = length W
    \<and> chained t D
    \<and> (\<forall>ev \<in> set R. isPalRead (fst ev) \<and> beginOf ev = lastFinish t D)
    \<and> (\<forall>ev \<in> set W. isPalWrite (fst ev) \<and> beginOf ev = maxFinish t (map finishOf R))
    \<and> (\<forall>ev \<in> set E. isPalErase (fst ev) \<and> beginOf ev = maxFinish t (map finishOf R))
    \<and> map fst E = map (\<lambda>v. PalErase \<lparr>blockIndex = v, pageIndex = 0,
                                             palFlag = replicate (ioUnitInPage e) True\<rparr>) vs
    \<and> t' = max (maxFinish t (map finishOf W))
                (maxFinish t (map (\<lambda>ev. finishOf ev + applyLatency e ERASE_INTERNAL) E))
           + applyLatency e DO_GARBAGE_COLLECTION"
proof -
  from assms obtain s1 t1 rd wr er where
    c: "foldE (gcCollect e) vs (s, t, [], [], []) = Inr (s1, t1, rd, wr, er)"
    by (auto simp: doGarbageCollection_def elim!: bindE_InrE)
  obtain s2 rf where r: "issueAll e PalRead t1 rd (s1, t) = (s2, rf)"
    by (cases "issueAll e PalRead t1 rd (s1, t)")
  obtain s3 wf where w: "issueAll e PalWrite rf wr (s2, t) = (s3, wf)"
    by (cases "issueAll e PalWrite rf wr (s2, t)")
  from assms c r w obtain ef where
    x: "foldE (gcErase e rf) er (s3, t) = Inr (s', ef)"
    and t': "t' = max wf ef + applyLatency e DO_GARBAGE_COLLECTION"
    by (auto simp: doGarbageCollection_def elim!: bindE_InrE)
  from gcCollect_fold [OF c] obtain D where
    D: "ioLog s1 = ioLog s @ D" "\<forall>ev \<in> set D. isDramRead (fst ev)" "t1 = lastFinish t D"
    and D': "chained t D" "length wr = length D"
    and er: "er = map (\<lambda>v. \<lparr>blockIndex = v, pageIndex = 0,
                                  palFlag = replicate (ioUnitInPage e) True\<rparr>) vs"
    by (auto simp: dramOnly_def)
  from issueAll_log [OF r] obtain R where
    R: "ioLog s2 = ioLog s1 @ R" "map fst R = map PalRead rd" "\<forall>ev \<in> set R. beginOf ev = t1"
       "rf = maxFinish t (map finishOf R)"
    by auto
  from issueAll_log [OF w] obtain W where
    W: "ioLog s3 = ioLog s2 @ W" "map fst W = map PalWrite wr" "\<forall>ev \<in> set W. beginOf ev = rf"
       "wf = maxFinish t (map finishOf W)"
    by auto
  from gcErase_fold [OF x] obtain E where
    E: "ioLog s' = ioLog s3 @ E" "map fst E = map PalErase er" "\<forall>ev \<in> set E. beginOf ev = rf"
       "ef = maxFinish t (map (\<lambda>ev. finishOf ev + applyLatency e ERASE_INTERNAL) E)"
    by auto
  have kind: "\<forall>ev \<in> set xs. P (fst ev)" if "map fst xs = map k ys" "\<And>y. P (k y)"
    for xs :: "io_event list" and k :: "pal_request \<Rightarrow> io_call" and ys P
  proof
    fix ev assume "ev \<in> set xs"
    then have "fst ev \<in> set (map fst xs)" by simp
    with that show "P (fst ev)" by auto
  qed
  have kR: "\<forall>ev \<in> set R. isPalRead (fst ev)"
    by (rule kind [OF R(2)]) (simp add: isPalRead_def)
  have kW: "\<forall>ev \<in> set W. isPalWrite (fst ev)"
    by (rule kind [OF W(2)]) (simp add: isPalWrite_def)
  have kE: "\<forall>ev \<in> set E. isPalErase (fst ev)"
    by (rule kind [OF E(2)]) (simp add: isPalErase_def)
  have ME: "map fst E = map (\<lambda>v. PalErase \<lparr>blockIndex = v, pageIndex = 0,
                                             palFlag = replicate (ioUnitInPage e) True\<rparr>) vs"
    by (simp add: E(2) er)
  have L: "ioLog s' = ioLog s @ D @ R @ W @ E" by (simp add: E(1) W(1) R(1) D(1))
  have DW: "length D = length W"
    using arg_cong [OF W(2), of length] D'(2) by simp
  show ?thesis
    apply (rule exI [of _ D], rule exI [of _ R], rule exI [of _ W], rule exI [of _ E])
    using L D(2,3) R(3,4) W(3,4) E(3,4) kR kW kE ME t' DW D'(1)
    apply (intro conjI ballI)
              apply simp_all
    done
qed

lemmas gc_eval =
  doGarbageCollection_def gcCollect_def gcCopyPage_def gcCopyUnit_def gcErase_def
  eraseInternal_def

theorem gc_read_begin_counterexample:
  "(case doGarbageCollection exEnv exFull [0] 1000 of
      Inl _ \<Rightarrow> False
    | Inr (s', t') \<Rightarrow>
        drop (length (ioLog exFull)) (ioLog s')
          = [(DramRead 5 8, 1000, 1010), (DramRead 6 8, 1010, 1020),
             (PalRead \<lparr>blockIndex = 0, pageIndex = 0, palFlag = [True]\<rparr>, 1020, 1030),
             (PalRead \<lparr>blockIndex = 0, pageIndex = 1, palFlag = [True]\<rparr>, 1020, 1030),
             (PalWrite \<lparr>blockIndex = 1, pageIndex = 0, palFlag = [True]\<rparr>, 1030, 1040),
             (PalWrite \<lparr>blockIndex = 1, pageIndex = 1, palFlag = [True]\<rparr>, 1030, 1040),
             (PalErase \<lparr>blockIndex = 0, pageIndex = 0, palFlag = [True]\<rparr>, 1030, 1040)]
        \<and> t' = 1042)"
  by (simp add: gc_eval ftl_eval exEnv_def exBoot_def exPool_def exFull_def upt_conv_Cons)

theorem doGarbageCollection_timing_witness:
  "\<exists>s' t'. doGarbageCollection exEnv exFull [0] 1000 = Inr (s', t') \<and> [0::nat] \<noteq> []
     \<and> (\<exists>D R W E.
           ioLog s' = ioLog exFull @ D @ R @ W @ E
         \<and> (\<forall>ev \<in> set D. isDramRead (fst ev))
         \<and> length D = length W
         \<and> chained 1000 D
         \<and> (\<forall>ev \<in> set R. isPalRead (fst ev) \<and> beginOf ev = lastFinish 1000 D)
         \<and> (\<forall>ev \<in> set W. isPalWrite (fst ev) \<and> beginOf ev = maxFinish 1000 (map finishOf R))
         \<and> (\<forall>ev \<in> set E. isPalErase (fst ev) \<and> beginOf ev = maxFinish 1000 (map finishOf R))
         \<and> map fst E = map (\<lambda>v. PalErase \<lparr>blockIndex = v, pageIndex = 0,
                                              palFlag = replicate (ioUnitInPage exEnv) True\<rparr>) [0]
         \<and> t' = max (maxFinish 1000 (map finishOf W))
                     (maxFinish 1000 (map (\<lambda>ev. finishOf ev + applyLatency exEnv ERASE_INTERNAL) E))
                + applyLatency exEnv DO_GARBAGE_COLLECTION)"
proof -
  obtain s' t' where r: "doGarbageCollection exEnv exFull [0] 1000 = Inr (s', t')"
    by (simp add: gc_eval ftl_eval exEnv_def exBoot_def exPool_def exFull_def upt_conv_Cons)
  have n: "[0::nat] \<noteq> []" by simp
  from doGarbageCollection_timing [OF r n] r n show ?thesis by blast
qed

end
